theory Spec2Isabelle
  imports Main "HOL-Library.Word" "HOL-Library.Char_ord" "HOL-Library.List_Lexorder"
begin

section \<open>Data model\<close>

text \<open>
  The runner of \<^verbatim>\<open>migrate.go\<close> and \<^verbatim>\<open>rollback.go\<close> talks to a database through an
  ORM. The database is modelled by its contents (the ledger table, the lock row and
  everything else, the \<open>world\<close> that migration actions change), the driver by a script of
  outcomes, one per statement sent: \<open>None\<close> lets the statement succeed, \<open>Some err\<close> makes
  it return \<open>err\<close>. A theorem that holds for every script holds for every behaviour of
  the driver.
\<close>

type_synonym int32 = "32 word"

text \<open>
  Modelled from the spec: the declaration of \<^verbatim>\<open>ErrAlreadyLocked\<close> is not among the
  source files; the spec names it \<^verbatim>\<open>AlreadyLocked\<close>, the error of a lock held by
  another run.

  The other constructors are Go's \<^verbatim>\<open>error\<close> values as the source builds them:
  \<open>Errorf n e\<close> is the value of \<^verbatim>\<open>fmt.Errorf("%s: %s", n, e)\<close>, and \<open>ErrMsg t\<close> is any
  other error, of the driver or of an action, with text \<open>t\<close>.
\<close>

datatype error = ErrAlreadyLocked | ErrMsg string | Errorf string error

text \<open>
  The text of an error (Go's \<^verbatim>\<open>Error()\<close>), which \<^verbatim>\<open>%s\<close> prints. The text of
  \<^verbatim>\<open>ErrAlreadyLocked\<close> is declared outside the source files and is a parameter.
\<close>

fun Error :: "string \<Rightarrow> error \<Rightarrow> string" where
  "Error lockedText ErrAlreadyLocked = lockedText"
| "Error lockedText (ErrMsg t) = t"
| "Error lockedText (Errorf n e) = n @ '': '' @ Error lockedText e"

text \<open>
  What a call returns: \<^verbatim>\<open>nil\<close>, an error, or no return at all because the call
  panicked (calling a \<^verbatim>\<open>nil\<close> function value).
\<close>

datatype outcome = NoError | Failed error | Panicked

text \<open>
  A migration action, \<^verbatim>\<open>func(orm.DB) error\<close>: it changes the world and returns an error
  or \<^verbatim>\<open>nil\<close>. The world it returns with an error is what it had done before failing.
  Actions are taken to terminate and to leave the ledger table and the lock row alone.
\<close>

type_synonym 'w action = "'w \<Rightarrow> error option \<times> 'w"

text \<open>
  Modelled from the spec: the declaration of the struct \<^verbatim>\<open>migration\<close> is not among the
  source files. These are the fields that \<^verbatim>\<open>migrate.go\<close>, \<^verbatim>\<open>rollback.go\<close> and the
  test file read and write; the spec's MigrationDefinition and LedgerEntry together.
  A \<^verbatim>\<open>nil\<close> function value is \<open>None\<close>.
\<close>

record 'w migration =
  Name :: string
  Batch :: int32
  CompletedAt :: nat
  Up :: "'w action option"
  Down :: "'w action option"
  DisableTransaction :: bool

text \<open>A row of the ledger table: the columns \<^verbatim>\<open>name\<close>, \<^verbatim>\<open>batch\<close>, \<^verbatim>\<open>completed_at\<close>.
  The \<^verbatim>\<open>id\<close> column is the position of the row in the list: rows are kept in the order
  of their insertion, which is the order of their identities.\<close>

record row =
  name :: string
  batch :: int32
  completed_at :: nat

text \<open>The lines the runner prints, each by its format and arguments.\<close>

datatype message =
    UpToDate                      \<comment> \<open>\<^verbatim>\<open>Migrations already up to date\<close>\<close>
  | RunningBatch int32 nat        \<comment> \<open>\<^verbatim>\<open>Running batch %d with %d migration(s)...\<close>\<close>
  | FinishedRunning string        \<comment> \<open>\<^verbatim>\<open>Finished running %q\<close>\<close>
  | NoneRunYet                    \<comment> \<open>\<^verbatim>\<open>No migrations have been run yet\<close>\<close>
  | RollingBackBatch int32 nat    \<comment> \<open>\<^verbatim>\<open>Rolling back batch %d with %d migration(s)...\<close>\<close>
  | RollingBackSelected nat       \<comment> \<open>\<^verbatim>\<open>Rolling back N selected migration(s)...\<close>\<close>
  | FinishedRollingBack string    \<comment> \<open>\<^verbatim>\<open>Finished rolling back %q\<close>\<close>
  | NoSuchNamed                   \<comment> \<open>\<^verbatim>\<open>No such named migrations exist! \<close>\<close>

text \<open>
  Modelled from the spec: the struct \<^verbatim>\<open>lock\<close> and the set-up of the two tables are not
  among the source files. The lock table is the spec's LockRecord, a single row with the
  flag \<open>isLocked\<close>, which is taken to exist.

  The state a run reads and writes: the package variable \<^verbatim>\<open>migrations\<close>, the two
  tables, the rest of the database, the driver's script, the clock that \<^verbatim>\<open>time.Now\<close>
  reads, standard output, and \<open>ran\<close>, the names of the migrations whose action has been
  called so far (kept for the statements below; the code has no such variable).
\<close>

record 'w state =
  migrations :: "'w migration list"
  ledger :: "row list"
  isLocked :: bool
  world :: 'w
  faults :: "error option list"
  clock :: nat
  out :: "message list"
  ran :: "string list"

section \<open>The driver\<close>

text \<open>One statement sent to the database: the next outcome of the script is consumed.
  A script that has run out lets every further statement succeed.\<close>

definition stmt :: "'w state \<Rightarrow> error option \<times> 'w state" where
  "stmt s = (case faults s of [] \<Rightarrow> (None, s) | f # fs \<Rightarrow> (f, s\<lparr>faults := fs\<rparr>))"

text \<open>A transaction that is rolled back puts the contents of the database back.\<close>

definition restore :: "'w state \<Rightarrow> 'w state \<Rightarrow> 'w state" where
  "restore s0 s = s\<lparr>ledger := ledger s0, isLocked := isLocked s0, world := world s0\<rparr>"

text \<open>
  \<^verbatim>\<open>db.RunInTransaction(fn)\<close> of the ORM: begin, run \<open>fn\<close>, commit when it returns
  \<^verbatim>\<open>nil\<close>, roll back when it returns an error, panics, or the commit fails. The ORM
  ignores what the rollback itself returns, so the script has no outcome for it.
\<close>

definition RunInTransaction ::
  "('w state \<Rightarrow> outcome \<times> 'w state) \<Rightarrow> 'w state \<Rightarrow> outcome \<times> 'w state" where
  "RunInTransaction fn s =
    (case stmt s of
       (Some err, s1) \<Rightarrow> (Failed err, s1)
     | (None, s1) \<Rightarrow>
        (case fn s1 of
           (NoError, s2) \<Rightarrow>
             (case stmt s2 of
                (Some err, s3) \<Rightarrow> (Failed err, restore s1 s3)
              | (None, s3) \<Rightarrow> (NoError, s3))
         | (r, s2) \<Rightarrow> (r, restore s1 s2)))"

definition println :: "message \<Rightarrow> 'w state \<Rightarrow> 'w state" where
  "println msg s = s\<lparr>out := out s @ [msg]\<rparr>"

text \<open>Calling the action of the migration named \<open>n\<close>; a \<^verbatim>\<open>nil\<close> action panics.\<close>

definition call :: "string \<Rightarrow> 'w action option \<Rightarrow> 'w state \<Rightarrow> outcome \<times> 'w state" where
  "call n f s =
    (case f of
       None \<Rightarrow> (Panicked, s)
     | Some g \<Rightarrow>
        (case g (world s) of
           (None, w) \<Rightarrow> (NoError, s\<lparr>world := w, ran := ran s @ [n]\<rparr>)
         | (Some err, w) \<Rightarrow> (Failed err, s\<lparr>world := w, ran := ran s @ [n]\<rparr>)))"

section \<open>migrate.go\<close>

text \<open>A row read into a \<^verbatim>\<open>migration\<close> struct: the fields without a column stay zero.\<close>

definition scan :: "row \<Rightarrow> 'w migration" where
  "scan r = \<lparr>Name = name r, Batch = batch r, CompletedAt = completed_at r,
             Up = None, Down = None, DisableTransaction = False\<rparr>"

definition getCompletedMigrations ::
  "'w state \<Rightarrow> (error + 'w migration list) \<times> 'w state" where
  "getCompletedMigrations s =
    (case stmt s of
       (Some err, s1) \<Rightarrow> (Inl err, s1)
     | (None, s1) \<Rightarrow> (Inr (map scan (ledger s1)), s1))"

text \<open>Reading a Go \<^verbatim>\<open>map[string]bool\<close>: a missing key reads as \<^verbatim>\<open>false\<close>.\<close>

definition lookup :: "(string \<rightharpoonup> bool) \<Rightarrow> string \<Rightarrow> bool" where
  "lookup m k = (case m k of None \<Rightarrow> False | Some b \<Rightarrow> b)"

definition filterMigrations ::
  "'w migration list \<Rightarrow> 'w migration list \<Rightarrow> bool \<Rightarrow> 'w migration list" where
  "filterMigrations all sub wantCompleted =
    (let subsetMap = fold (\<lambda>c m. m(Name c \<mapsto> True)) sub Map.empty
     in fold (\<lambda>a d. if lookup subsetMap (Name a) = wantCompleted then d @ [a] else d) all [])"

text \<open>
  \<^verbatim>\<open>Model(&l).Update()\<close> as \<^verbatim>\<open>acquireLock\<close> and \<^verbatim>\<open>releaseLock\<close> call it, with no
  \<^verbatim>\<open>Where\<close> and no \<^verbatim>\<open>WherePK\<close>. The ORM that \<^verbatim>\<open>migrate.go\<close> imports (go-pg v10)
  builds no query for such an update: nothing is sent to the database, no row is written,
  and the call returns the ORM's own error. The value the code has put in \<^verbatim>\<open>l.IsLocked\<close>
  is never stored.
\<close>

definition ErrWhereClause :: error where
  "ErrWhereClause = ErrMsg ''pg: Update and Delete queries require Where clause (try WherePK)''"

definition update_lock :: "bool \<Rightarrow> 'w state \<Rightarrow> error option \<times> 'w state" where
  "update_lock IsLocked s = (Some ErrWhereClause, s)"

definition acquireLock :: "'w state \<Rightarrow> outcome \<times> 'w state" where
  "acquireLock s =
    RunInTransaction (\<lambda>tx.
      case stmt tx of
        (Some err, tx1) \<Rightarrow> (Failed err, tx1)
      | (None, tx1) \<Rightarrow>
          if isLocked tx1 then (Failed ErrAlreadyLocked, tx1)
          else (case update_lock True tx1 of
                  (Some err, tx2) \<Rightarrow> (Failed err, tx2)
                | (None, tx2) \<Rightarrow> (NoError, tx2))) s"

definition releaseLock :: "'w state \<Rightarrow> outcome \<times> 'w state" where
  "releaseLock s =
    (case update_lock False s of
       (Some err, s1) \<Rightarrow> (Failed err, s1)
     | (None, s1) \<Rightarrow> (NoError, s1))"

text \<open>\<^verbatim>\<open>defer releaseLock(db)\<close>: the lock is released after the rest of the function has
  produced its result, and what \<^verbatim>\<open>releaseLock\<close> returns is dropped.\<close>

definition defer_releaseLock :: "outcome \<times> 'w state \<Rightarrow> outcome \<times> 'w state" where
  "defer_releaseLock body = (case body of (r, s) \<Rightarrow> (r, snd (releaseLock s)))"

text \<open>\<^verbatim>\<open>COALESCE(MAX(batch), 0)\<close> over the ledger table; the column is a signed integer.\<close>

definition max_batch :: "row list \<Rightarrow> int32" where
  "max_batch rows =
    (case rows of
       [] \<Rightarrow> 0
     | r # rs \<Rightarrow> fold (\<lambda>x m. if m <s batch x then batch x else m) rs (batch r))"

definition getLastBatchNumber :: "'w state \<Rightarrow> (error + int32) \<times> 'w state" where
  "getLastBatchNumber s =
    (case stmt s of
       (Some err, s1) \<Rightarrow> (Inl err, s1)
     | (None, s1) \<Rightarrow> (Inr (max_batch (ledger s1)), s1))"

text \<open>\<^verbatim>\<open>time.Now()\<close>: the clock is read and moves on.\<close>

definition now :: "'w state \<Rightarrow> nat \<times> 'w state" where
  "now s = (clock s, s\<lparr>clock := Suc (clock s)\<rparr>)"

text \<open>\<^verbatim>\<open>db.Model(&m).Insert()\<close>: a new row at the end of the ledger table.\<close>

definition insert_row :: "'w migration \<Rightarrow> 'w state \<Rightarrow> error option \<times> 'w state" where
  "insert_row m s =
    (case stmt s of
       (Some err, s1) \<Rightarrow> (Some err, s1)
     | (None, s1) \<Rightarrow>
        (None, s1\<lparr>ledger := ledger s1 @
                   [\<lparr>name = Name m, batch = Batch m, completed_at = CompletedAt m\<rparr>]\<rparr>))"

text \<open>The \<^verbatim>\<open>err\<close> of one turn of a loop: the action run on the connection or inside a
  transaction of its own.\<close>

definition run_action :: "'w migration \<Rightarrow> 'w action option \<Rightarrow> 'w state \<Rightarrow> outcome \<times> 'w state" where
  "run_action m f s =
    (if DisableTransaction m then call (Name m) f s
     else RunInTransaction (call (Name m) f) s)"

text \<open>The loop of \<^verbatim>\<open>migrate\<close> over \<^verbatim>\<open>uncompleted\<close>; falling out of it is the
  \<^verbatim>\<open>return nil\<close> that follows.\<close>

fun migrate_loop :: "int32 \<Rightarrow> 'w migration list \<Rightarrow> 'w state \<Rightarrow> outcome \<times> 'w state" where
  "migrate_loop b [] s = (NoError, s)"
| "migrate_loop b (m0 # ms) s =
    (let m = m0\<lparr>Batch := b\<rparr> in
     case run_action m (Up m) s of
       (Failed err, s1) \<Rightarrow> (Failed (Errorf (Name m) err), s1)
     | (Panicked, s1) \<Rightarrow> (Panicked, s1)
     | (NoError, s1) \<Rightarrow>
        (case now s1 of
           (t, s2) \<Rightarrow>
             (case insert_row (m\<lparr>CompletedAt := t\<rparr>) s2 of
                (Some err, s3) \<Rightarrow> (Failed (Errorf (Name m) err), s3)
              | (None, s3) \<Rightarrow> migrate_loop b ms (println (FinishedRunning (Name m)) s3))))"

text \<open>The part of \<^verbatim>\<open>migrate\<close> that runs with the lock held, from
  \<^verbatim>\<open>getLastBatchNumber\<close> on.\<close>

definition migrate_locked :: "'w migration list \<Rightarrow> 'w state \<Rightarrow> outcome \<times> 'w state" where
  "migrate_locked uncompleted s =
    (case getLastBatchNumber s of
       (Inl err, s1) \<Rightarrow> (Failed err, s1)
     | (Inr b0, s1) \<Rightarrow>
        (let b = b0 + 1
         in migrate_loop b uncompleted (println (RunningBatch b (length uncompleted)) s1)))"

text \<open>\<^verbatim>\<open>sort.Slice\<close> by name, least first: migrations of the same name stay in the order
  they had (as \<^verbatim>\<open>sort.Slice\<close> leaves them on a short slice, which it sorts by insertion).\<close>

definition migrate :: "'w state \<Rightarrow> outcome \<times> 'w state" where
  "migrate s0 =
    (let s = s0\<lparr>migrations := sort_key Name (migrations s0)\<rparr> in
     case getCompletedMigrations s of
       (Inl err, s1) \<Rightarrow> (Failed err, s1)
     | (Inr completed, s1) \<Rightarrow>
        (let uncompleted = filterMigrations (migrations s1) completed False in
         if length uncompleted = 0 then (NoError, println UpToDate s1)
         else (case acquireLock s1 of
                 (NoError, s2) \<Rightarrow> defer_releaseLock (migrate_locked uncompleted s2)
               | (r, s2) \<Rightarrow> (r, s2))))"

section \<open>rollback.go\<close>

definition getMigrationsForBatch :: "'w migration list \<Rightarrow> int32 \<Rightarrow> 'w migration list" where
  "getMigrationsForBatch ms b =
    fold (\<lambda>migration m. if Batch migration = b then m @ [migration] else m) ms []"

text \<open>\<^verbatim>\<open>db.Model(&m).Where("name = ?", m.Name).Delete()\<close>: every row of that name goes.\<close>

definition delete_rows :: "string \<Rightarrow> 'w state \<Rightarrow> error option \<times> 'w state" where
  "delete_rows n s =
    (case stmt s of
       (Some err, s1) \<Rightarrow> (Some err, s1)
     | (None, s1) \<Rightarrow> (None, s1\<lparr>ledger := filter (\<lambda>r. name r \<noteq> n) (ledger s1)\<rparr>))"

text \<open>The loop over \<^verbatim>\<open>rollback\<close>, which \<^verbatim>\<open>rollback\<close> and \<^verbatim>\<open>rollbackNamed\<close> both
  contain, statement for statement the same.\<close>

fun rollback_loop :: "'w migration list \<Rightarrow> 'w state \<Rightarrow> outcome \<times> 'w state" where
  "rollback_loop [] s = (NoError, s)"
| "rollback_loop (m # ms) s =
    (case run_action m (Down m) s of
       (Failed err, s1) \<Rightarrow> (Failed (Errorf (Name m) err), s1)
     | (Panicked, s1) \<Rightarrow> (Panicked, s1)
     | (NoError, s1) \<Rightarrow>
        (case delete_rows (Name m) s1 of
           (Some err, s2) \<Rightarrow> (Failed (Errorf (Name m) err), s2)
         | (None, s2) \<Rightarrow> rollback_loop ms (println (FinishedRollingBack (Name m)) s2)))"

text \<open>The part of \<^verbatim>\<open>rollback\<close> that runs with the lock held.\<close>

definition rollback_locked :: "'w migration list \<Rightarrow> 'w state \<Rightarrow> outcome \<times> 'w state" where
  "rollback_locked completed s =
    (case getLastBatchNumber s of
       (Inl err, s1) \<Rightarrow> (Failed err, s1)
     | (Inr b, s1) \<Rightarrow>
        if b = 0 then (NoError, println NoneRunYet s1)
        else
          (let rb = getMigrationsForBatch completed b;
               rb = filterMigrations (migrations s1) rb True
           in rollback_loop rb (println (RollingBackBatch b (length rb)) s1)))"

text \<open>\<^verbatim>\<open>sort.Slice\<close> by name, greatest first. Like the sort of \<^verbatim>\<open>migrate\<close> it moves a
  migration only past migrations of another name: those of the same name stay in the order
  they had (as \<^verbatim>\<open>sort.Slice\<close> leaves them on a short slice, which it sorts by insertion).\<close>

definition sort_descending :: "'w migration list \<Rightarrow> 'w migration list" where
  "sort_descending ms = rev (sort_key Name (rev ms))"

definition rollback :: "'w state \<Rightarrow> outcome \<times> 'w state" where
  "rollback s0 =
    (let s = s0\<lparr>migrations := sort_descending (migrations s0)\<rparr> in
     case getCompletedMigrations s of
       (Inl err, s1) \<Rightarrow> (Failed err, s1)
     | (Inr completed, s1) \<Rightarrow>
        (case acquireLock s1 of
           (NoError, s2) \<Rightarrow> defer_releaseLock (rollback_locked completed s2)
         | (r, s2) \<Rightarrow> (r, s2)))"

text \<open>\<^verbatim>\<open>strings.Replace(s, " ", "", -1)\<close> and \<^verbatim>\<open>strings.Split(s, ",")\<close>.\<close>

definition remove_spaces :: "string \<Rightarrow> string" where
  "remove_spaces str = filter (\<lambda>c. c \<noteq> CHR '' '') str"

fun split_commas :: "string \<Rightarrow> string list" where
  "split_commas [] = [[]]"
| "split_commas (c # cs) =
    (if c = CHR '','' then [] # split_commas cs
     else (case split_commas cs of
             [] \<Rightarrow> [[c]]
           | w # ws \<Rightarrow> (c # w) # ws))"

text \<open>The two nested loops of \<^verbatim>\<open>rollbackNamed\<close> that collect the rows to roll back.\<close>

definition select_named :: "'w migration list \<Rightarrow> string list \<Rightarrow> 'w migration list" where
  "select_named completed mNamesToRollback =
    fold (\<lambda>mRecord rb.
            fold (\<lambda>n rb'. if Name mRecord = n then rb' @ [mRecord] else rb') mNamesToRollback rb)
         completed []"

text \<open>The part of \<^verbatim>\<open>rollbackNamed\<close> that runs with the lock held.\<close>

definition rollbackNamed_locked ::
  "'w migration list \<Rightarrow> string list \<Rightarrow> 'w state \<Rightarrow> outcome \<times> 'w state" where
  "rollbackNamed_locked completed mNamesToRollback s =
    (case getLastBatchNumber s of
       (Inl err, s1) \<Rightarrow> (Failed err, s1)
     | (Inr b, s1) \<Rightarrow>
        if b = 0 then (NoError, println NoneRunYet s1)
        else
          (let rb = select_named completed mNamesToRollback in
           if length rb > 0 then
             (let rb = filterMigrations (migrations s1) rb True
              in rollback_loop rb (println (RollingBackSelected (length rb)) s1))
           else (NoError, println NoSuchNamed s1)))"

definition rollbackNamed :: "string \<Rightarrow> 'w state \<Rightarrow> outcome \<times> 'w state" where
  "rollbackNamed str s0 =
    (let s = s0\<lparr>migrations := sort_descending (migrations s0)\<rparr> in
     case getCompletedMigrations s of
       (Inl err, s1) \<Rightarrow> (Failed err, s1)
     | (Inr completed, s1) \<Rightarrow>
        (let mNamesToRollback = split_commas (remove_spaces str) in
         case acquireLock s1 of
           (NoError, s2) \<Rightarrow> defer_releaseLock (rollbackNamed_locked completed mNamesToRollback s2)
         | (r, s2) \<Rightarrow> (r, s2)))"

section \<open>Notions for the statements\<close>

text \<open>The next \<open>n\<close> statements succeed; the outcome of the next statement; the state once
  a statement has been sent.\<close>

definition succeed :: "nat \<Rightarrow> 'w state \<Rightarrow> bool" where
  "succeed n s = list_all (\<lambda>f. f = None) (take n (faults s))"

definition next_fault :: "'w state \<Rightarrow> error option" where
  "next_fault s = (case faults s of [] \<Rightarrow> None | f # fs \<Rightarrow> f)"

definition sent :: "'w state \<Rightarrow> 'w state" where
  "sent s = s\<lparr>faults := tl (faults s)\<rparr>"

text \<open>
  The migrations a run works through, in the order it takes them: \<open>pending\<close> for
  \<^verbatim>\<open>migrate\<close>, the registered migrations whose name the ledger does not have, least name
  first; \<open>last_batch\<close> for the locked part of \<^verbatim>\<open>rollback\<close>, the registered migrations
  whose name a row of the greatest batch has; \<open>named\<close> for the locked part of
  \<^verbatim>\<open>rollbackNamed\<close>, the registered migrations whose name is both among the names \<open>ns\<close>
  and in the ledger; the last two in the order of the registry, which the run has sorted
  before.
\<close>

definition pending :: "'w state \<Rightarrow> 'w migration list" where
  "pending s = filter (\<lambda>a. Name a \<notin> name ` set (ledger s)) (sort_key Name (migrations s))"

definition last_batch :: "'w state \<Rightarrow> 'w migration list" where
  "last_batch s =
     filter (\<lambda>a. Name a \<in> name ` {row \<in> set (ledger s). batch row = max_batch (ledger s)})
       (migrations s)"

definition named :: "string list \<Rightarrow> 'w state \<Rightarrow> 'w migration list" where
  "named ns s =
     filter (\<lambda>a. Name a \<in> set ns \<and> Name a \<in> name ` set (ledger s)) (migrations s)"

text \<open>The state in which the part of a run after \<^verbatim>\<open>acquireLock\<close> starts: the registry
  sorted greatest name first, as \<^verbatim>\<open>rollback\<close> and \<^verbatim>\<open>rollbackNamed\<close> sort it, and the
  lock row locked.\<close>

definition rollback_under_lock :: "'w state \<Rightarrow> 'w state" where
  "rollback_under_lock s = s\<lparr>migrations := sort_descending (migrations s), isLocked := True\<rparr>"

text \<open>Not from the source: a list of names as a caller writes it, a comma and a space
  between two names.\<close>

fun written :: "string list \<Rightarrow> string" where
  "written [] = []"
| "written [n] = n"
| "written (n # m # ns) = n @ '', '' @ written (m # ns)"

section \<open>Example inputs\<close>

text \<open>Two actions that each change the world, one returning \<^verbatim>\<open>nil\<close> and one an error;
  a registered migration, transactional as \<^verbatim>\<open>Register\<close> leaves it by default; a ledger
  row; a state of the database and the registry.\<close>

definition succeeding :: "nat action" where
  "succeeding w = (None, Suc w)"

definition erring :: "nat action" where
  "erring w = (Some (ErrMsg ''error''), Suc w)"

definition registered :: "string \<Rightarrow> nat action \<Rightarrow> nat action \<Rightarrow> nat migration" where
  "registered n up down =
     \<lparr>Name = n, Batch = 0, CompletedAt = 0, Up = Some up, Down = Some down,
      DisableTransaction = False\<rparr>"

definition entry :: "string \<Rightarrow> int32 \<Rightarrow> row" where
  "entry n b = \<lparr>name = n, batch = b, completed_at = 0\<rparr>"

definition database :: "nat migration list \<Rightarrow> row list \<Rightarrow> bool \<Rightarrow> error option list \<Rightarrow> nat state" where
  "database ms rows locked script =
     \<lparr>migrations = ms, ledger = rows, isLocked = locked, world = 0, faults = script,
      clock = 0, out = [], ran = []\<rparr>"

text \<open>The inputs of the examples: a list to apply whose second action fails and a list to
  roll back whose second action fails; a registry of two whose names a ledger with one
  foreign row of batch 4 does not have, the lock row locked; the registries and ledgers of
  the spec's scenarios B and C, the lock free; a registry of two with an empty ledger and
  a registry of one that is recorded, each with the lock held or free.\<close>

definition up_list :: "nat migration list" where
  "up_list = [registered ''A'' succeeding succeeding, registered ''B'' erring succeeding,
         registered ''C'' succeeding succeeding]"

definition down_list :: "nat migration list" where
  "down_list = [registered ''C'' succeeding succeeding, registered ''B'' succeeding erring,
         registered ''A'' succeeding succeeding]"

definition fresh :: "nat state" where
  "fresh = database [registered ''B'' succeeding succeeding, registered ''A'' succeeding succeeding]
             [entry ''0'' 4] True []"

definition two_batches :: "nat state" where
  "two_batches = database
     [registered ''123'' succeeding succeeding, registered ''456'' succeeding succeeding,
      registered ''789'' succeeding succeeding, registered ''010'' succeeding succeeding]
     [entry ''123'' 4, entry ''456'' 5, entry ''789'' 5] False []"

definition scenario_C :: "nat state" where
  "scenario_C = database
     [registered ''A'' succeeding succeeding, registered ''B'' succeeding succeeding,
      registered ''C'' succeeding succeeding, registered ''D'' succeeding succeeding]
     [entry ''A'' 1, entry ''B'' 2, entry ''C'' 2] False []"

definition never_run :: "bool \<Rightarrow> nat state" where
  "never_run locked = database
     [registered ''123'' succeeding succeeding, registered ''456'' succeeding succeeding]
     [] locked []"

definition one_recorded :: "bool \<Rightarrow> nat state" where
  "one_recorded locked = database [registered ''A'' succeeding succeeding] [entry ''A'' 1] locked []"

section \<open>The operations, statement by statement\<close>

lemma stmt_eq: "stmt s = (next_fault s, sent s)"
  by (cases "faults s") (simp_all add: stmt_def next_fault_def sent_def)

lemma sent_fields [simp]:
  "migrations (sent s) = migrations s" "ledger (sent s) = ledger s"
  "isLocked (sent s) = isLocked s" "world (sent s) = world s"
  "clock (sent s) = clock s" "out (sent s) = out s" "ran (sent s) = ran s"
  "faults (sent s) = tl (faults s)"
  by (simp_all add: sent_def)

lemma next_fault_upd [simp]:
  "next_fault (s\<lparr>migrations := a\<rparr>) = next_fault s" "next_fault (s\<lparr>ledger := b\<rparr>) = next_fault s"
  "next_fault (s\<lparr>isLocked := c\<rparr>) = next_fault s" "next_fault (s\<lparr>world := d\<rparr>) = next_fault s"
  "next_fault (s\<lparr>clock := e\<rparr>) = next_fault s" "next_fault (s\<lparr>out := f\<rparr>) = next_fault s"
  "next_fault (s\<lparr>ran := g\<rparr>) = next_fault s"
  by (simp_all add: next_fault_def)

lemma sent_upd [simp]:
  "sent (s\<lparr>migrations := a\<rparr>) = (sent s)\<lparr>migrations := a\<rparr>" "sent (s\<lparr>ledger := b\<rparr>) = (sent s)\<lparr>ledger := b\<rparr>"
  "sent (s\<lparr>isLocked := c\<rparr>) = (sent s)\<lparr>isLocked := c\<rparr>" "sent (s\<lparr>world := d\<rparr>) = (sent s)\<lparr>world := d\<rparr>"
  "sent (s\<lparr>clock := e\<rparr>) = (sent s)\<lparr>clock := e\<rparr>" "sent (s\<lparr>out := f\<rparr>) = (sent s)\<lparr>out := f\<rparr>"
  "sent (s\<lparr>ran := g\<rparr>) = (sent s)\<lparr>ran := g\<rparr>"
  by (simp_all add: sent_def)

lemma succeed_Suc: "succeed (Suc n) s \<longleftrightarrow> next_fault s = None \<and> succeed n (sent s)"
  by (cases "faults s") (auto simp: succeed_def next_fault_def sent_def)

lemma succeed_0 [simp]: "succeed 0 s" by (simp add: succeed_def)

lemma succeed_1: "succeed 1 s \<longleftrightarrow> next_fault s = None"
  using succeed_Suc[of 0 s] by simp

lemma sent_drop: "(sent ^^ n) s = s\<lparr>faults := drop n (faults s)\<rparr>"
  by (induction n arbitrary: s) (simp_all add: sent_def drop_Suc funpow_swap1 tl_drop)

lemma succeed_2: "succeed 2 s \<longleftrightarrow> next_fault s = None \<and> next_fault (sent s) = None"
  by (simp add: eval_nat_numeral succeed_Suc)

lemma succeed_3: "succeed 3 s \<longleftrightarrow>
    next_fault s = None \<and> next_fault (sent s) = None \<and> next_fault (sent (sent s)) = None"
  by (simp add: eval_nat_numeral succeed_Suc)

lemma fold_map_upd:
  "fold (\<lambda>c m. m(Name c \<mapsto> True)) sub m0 n =
     (if n \<in> Name ` set sub then Some True else m0 n)"
  by (induction sub arbitrary: m0) auto

lemma fold_append_if:
  "fold (\<lambda>a d. if P a then d @ [a] else d) xs acc = acc @ filter P xs"
  by (induction xs arbitrary: acc) auto

lemma lookup_subsetMap:
  "lookup (fold (\<lambda>c m. m(Name c \<mapsto> True)) sub Map.empty) n \<longleftrightarrow> n \<in> Name ` set sub"
  by (simp add: lookup_def fold_map_upd)

lemma filterMigrations_eq:
  "filterMigrations all sub want = filter (\<lambda>a. (Name a \<in> Name ` set sub) = want) all"
  by (simp only: filterMigrations_def Let_def lookup_subsetMap fold_append_if append_Nil)

lemma getMigrationsForBatch_eq: "getMigrationsForBatch ms b = filter (\<lambda>m. Batch m = b) ms"
  by (simp add: getMigrationsForBatch_def fold_append_if)

text \<open>\<^verbatim>\<open>acquireLock\<close> sends two statements at most, BEGIN and the SELECT, and never returns
  \<^verbatim>\<open>nil\<close>; \<^verbatim>\<open>releaseLock\<close> sends none and changes nothing.\<close>

lemma acquireLock_eq:
  "acquireLock s =
    (case next_fault s of Some err \<Rightarrow> (Failed err, sent s)
     | None \<Rightarrow> (case next_fault (sent s) of Some err \<Rightarrow> (Failed err, sent (sent s))
       | None \<Rightarrow> if isLocked s then (Failed ErrAlreadyLocked, sent (sent s))
          else (Failed ErrWhereClause, sent (sent s))))"
  by (auto simp: acquireLock_def RunInTransaction_def stmt_eq restore_def update_lock_def
      split: option.splits)

lemma releaseLock_eq: "releaseLock s = (Failed ErrWhereClause, s)"
  by (simp add: releaseLock_def update_lock_def)

lemma defer_releaseLock_eq: "defer_releaseLock body = body"
  by (cases body) (simp add: defer_releaseLock_def releaseLock_eq)

lemma acquireLock_frame:
  assumes "acquireLock s = (r, s')"
  shows "migrations s' = migrations s" "ledger s' = ledger s" "world s' = world s"
    "clock s' = clock s" "out s' = out s" "ran s' = ran s" "isLocked s' = isLocked s"
    "r \<noteq> Panicked" "r \<noteq> NoError"
  using assms by (auto simp: acquireLock_eq split: option.splits if_splits)

lemma getCompletedMigrations_eq:
  "getCompletedMigrations s =
     (case next_fault s of Some err \<Rightarrow> (Inl err, sent s)
      | None \<Rightarrow> (Inr (map scan (ledger s)), sent s))"
  by (simp add: getCompletedMigrations_def stmt_eq split: option.splits)

lemma getLastBatchNumber_eq:
  "getLastBatchNumber s =
     (case next_fault s of Some err \<Rightarrow> (Inl err, sent s)
      | None \<Rightarrow> (Inr (max_batch (ledger s)), sent s))"
  by (simp add: getLastBatchNumber_def stmt_eq split: option.splits)

lemma call_frame:
  assumes "call n f s = (r, s')"
  shows "migrations s' = migrations s" "ledger s' = ledger s" "isLocked s' = isLocked s"
    "clock s' = clock s" "out s' = out s"
    "r = Panicked \<Longrightarrow> s' = s"
    "r \<noteq> Panicked \<Longrightarrow> ran s' = ran s @ [n]"
  using assms by (auto simp: call_def split: option.splits prod.splits)

lemma run_action_Batch [simp]: "run_action (m\<lparr>Batch := b\<rparr>) f = run_action m f"
  by (rule ext) (simp add: run_action_def)

lemma run_action_CompletedAt [simp]: "run_action (m\<lparr>CompletedAt := b\<rparr>) f = run_action m f"
  by (rule ext) (simp add: run_action_def)

lemma run_action_frame:
  assumes "run_action m f s = (r, s')"
  shows "migrations s' = migrations s" "ledger s' = ledger s" "isLocked s' = isLocked s"
    "clock s' = clock s" "out s' = out s"
    "ran s' = ran s \<or> ran s' = ran s @ [Name m]"
    "r = NoError \<Longrightarrow> ran s' = ran s @ [Name m]"
proof -
  have "migrations s' = migrations s \<and> ledger s' = ledger s \<and> isLocked s' = isLocked s \<and>
    clock s' = clock s \<and> out s' = out s \<and> (ran s' = ran s \<or> ran s' = ran s @ [Name m]) \<and>
    (r = NoError \<longrightarrow> ran s' = ran s @ [Name m])"
  proof (cases "DisableTransaction m")
    case True
    with assms have c: "call (Name m) f s = (r, s')" by (simp add: run_action_def)
    show ?thesis using call_frame[OF c] by (cases r) auto
  next
    case False
    with assms have t: "RunInTransaction (call (Name m) f) s = (r, s')"
      by (simp add: run_action_def)
    obtain r1 s1 where c: "call (Name m) f (sent s) = (r1, s1)" by fastforce
    show ?thesis using t call_frame[OF c] c
      by (cases r1) (auto simp: RunInTransaction_def stmt_eq restore_def split: option.splits)
  qed
  then show "migrations s' = migrations s" "ledger s' = ledger s" "isLocked s' = isLocked s"
    "clock s' = clock s" "out s' = out s"
    "ran s' = ran s \<or> ran s' = ran s @ [Name m]"
    "r = NoError \<Longrightarrow> ran s' = ran s @ [Name m]" by auto
qed

lemma insert_row_eq:
  "insert_row m s =
     (case next_fault s of Some err \<Rightarrow> (Some err, sent s)
      | None \<Rightarrow> (None, (sent s)\<lparr>ledger := ledger s @
                   [\<lparr>name = Name m, batch = Batch m, completed_at = CompletedAt m\<rparr>]\<rparr>))"
  by (simp add: insert_row_def stmt_eq split: option.splits)

lemma delete_rows_eq:
  "delete_rows n s =
     (case next_fault s of Some err \<Rightarrow> (Some err, sent s)
      | None \<Rightarrow> (None, (sent s)\<lparr>ledger := filter (\<lambda>r. name r \<noteq> n) (ledger s)\<rparr>))"
  by (simp add: delete_rows_def stmt_eq split: option.splits)

section \<open>The two loops\<close>

lemma migrate_loop_append:
  "migrate_loop b (xs @ ys) s =
     (case migrate_loop b xs s of (NoError, s1) \<Rightarrow> migrate_loop b ys s1 | (r, s1) \<Rightarrow> (r, s1))"
  by (induction xs arbitrary: s)
     (simp_all add: Let_def split: prod.splits outcome.splits option.splits)

lemma rollback_loop_append:
  "rollback_loop (xs @ ys) s =
     (case rollback_loop xs s of (NoError, s1) \<Rightarrow> rollback_loop ys s1 | (r, s1) \<Rightarrow> (r, s1))"
  by (induction xs arbitrary: s)
     (simp_all add: Let_def split: prod.splits outcome.splits option.splits)

text \<open>What a run of either loop leaves, whatever it returns: the rows of the first \<open>k\<close>
  migrations are written, and at most one more action was called.\<close>

lemma migrate_loop_shape:
  assumes "migrate_loop b ms s = (r, s')"
  shows "\<exists>k new. k \<le> length ms \<and> ledger s' = ledger s @ new \<and>
           map name new = map Name (take k ms) \<and> list_all (\<lambda>row. batch row = b) new \<and>
           migrations s' = migrations s \<and> isLocked s' = isLocked s \<and>
           (ran s' = ran s @ map Name (take k ms) \<or>
            k < length ms \<and> ran s' = ran s @ map Name (take (Suc k) ms)) \<and>
           (r = NoError \<longrightarrow> k = length ms \<and> ran s' = ran s @ map Name ms) \<and>
           (\<forall>e. r = Failed e \<longrightarrow> k < length ms \<and> (\<exists>cause. e = Errorf (Name (ms ! k)) cause))"
  using assms
proof (induction ms arbitrary: s)
  case Nil
  then show ?case by auto
next
  case (Cons m ms)
  obtain r1 s1 where ra: "run_action m (Up m) s = (r1, s1)" by fastforce
  note fr = run_action_frame[OF ra]
  show ?case
  proof (cases "r1 = NoError \<and> next_fault s1 = None")
    case False
    with Cons.prems ra fr have
      "ledger s' = ledger s" "migrations s' = migrations s" "isLocked s' = isLocked s"
      "ran s' = ran s \<or> ran s' = ran s @ [Name m]" "r \<noteq> NoError"
      "\<forall>e. r = Failed e \<longrightarrow> (\<exists>cause. e = Errorf (Name m) cause)"
      by (cases r1; auto simp: Let_def now_def insert_row_eq split: option.splits)+
    then show ?thesis
      by (intro exI[of _ 0] exI[of _ "[]"]) auto
  next
    case True
    define s3 where "s3 = println (FinishedRunning (Name m))
      ((sent (s1\<lparr>clock := Suc (clock s1)\<rparr>))\<lparr>ledger := ledger s1 @
         [\<lparr>name = Name m, batch = b, completed_at = clock s1\<rparr>]\<rparr>)"
    from True Cons.prems ra have rest: "migrate_loop b ms s3 = (r, s')"
      by (simp add: Let_def now_def insert_row_eq s3_def)
    from Cons.IH[OF rest] obtain k new where
      k: "k \<le> length ms" and
      l: "ledger s' = ledger s3 @ new" "map name new = map Name (take k ms)"
         "list_all (\<lambda>row. batch row = b) new" and
      f: "migrations s' = migrations s3" "isLocked s' = isLocked s3" and
      rn: "ran s' = ran s3 @ map Name (take k ms) \<or>
            k < length ms \<and> ran s' = ran s3 @ map Name (take (Suc k) ms)" and
      ok: "r = NoError \<longrightarrow> k = length ms \<and> ran s' = ran s3 @ map Name ms" and
      er: "\<forall>e. r = Failed e \<longrightarrow> k < length ms \<and> (\<exists>cause. e = Errorf (Name (ms ! k)) cause)"
      by blast
    have s3: "ledger s3 = ledger s @ [\<lparr>name = Name m, batch = b, completed_at = clock s1\<rparr>]"
      "migrations s3 = migrations s" "isLocked s3 = isLocked s" "ran s3 = ran s @ [Name m]"
      using fr True by (simp_all add: s3_def println_def)
    show ?thesis
      apply (rule exI[of _ "Suc k"])
      apply (rule exI[of _ "\<lparr>name = Name m, batch = b, completed_at = clock s1\<rparr> # new"])
      using k l f rn ok er s3 by auto
  qed
qed

lemma rollback_loop_shape:
  assumes "rollback_loop ms s = (r, s')"
  shows "\<exists>k. k \<le> length ms \<and>
           ledger s' = filter (\<lambda>row. name row \<notin> Name ` set (take k ms)) (ledger s) \<and>
           migrations s' = migrations s \<and> isLocked s' = isLocked s \<and>
           (ran s' = ran s @ map Name (take k ms) \<or>
            k < length ms \<and> ran s' = ran s @ map Name (take (Suc k) ms)) \<and>
           (r = NoError \<longrightarrow> k = length ms \<and> ran s' = ran s @ map Name ms) \<and>
           (\<forall>e. r = Failed e \<longrightarrow> k < length ms \<and> (\<exists>cause. e = Errorf (Name (ms ! k)) cause))"
  using assms
proof (induction ms arbitrary: s)
  case Nil
  then show ?case by auto
next
  case (Cons m ms)
  obtain r1 s1 where ra: "run_action m (Down m) s = (r1, s1)" by fastforce
  note fr = run_action_frame[OF ra]
  show ?case
  proof (cases "r1 = NoError \<and> next_fault s1 = None")
    case False
    with Cons.prems ra fr have
      "ledger s' = ledger s" "migrations s' = migrations s" "isLocked s' = isLocked s"
      "ran s' = ran s \<or> ran s' = ran s @ [Name m]" "r \<noteq> NoError"
      "\<forall>e. r = Failed e \<longrightarrow> (\<exists>cause. e = Errorf (Name m) cause)"
      by (cases r1; auto simp: delete_rows_eq split: option.splits)+
    then show ?thesis
      by (intro exI[of _ 0]) auto
  next
    case True
    define s3 where "s3 = println (FinishedRollingBack (Name m))
      ((sent s1)\<lparr>ledger := filter (\<lambda>r. name r \<noteq> Name m) (ledger s1)\<rparr>)"
    from True Cons.prems ra have rest: "rollback_loop ms s3 = (r, s')"
      by (simp add: delete_rows_eq s3_def)
    from Cons.IH[OF rest] obtain k where
      k: "k \<le> length ms" and
      l: "ledger s' = filter (\<lambda>row. name row \<notin> Name ` set (take k ms)) (ledger s3)" and
      f: "migrations s' = migrations s3" "isLocked s' = isLocked s3" and
      rn: "ran s' = ran s3 @ map Name (take k ms) \<or>
            k < length ms \<and> ran s' = ran s3 @ map Name (take (Suc k) ms)" and
      ok: "r = NoError \<longrightarrow> k = length ms \<and> ran s' = ran s3 @ map Name ms" and
      er: "\<forall>e. r = Failed e \<longrightarrow> k < length ms \<and> (\<exists>cause. e = Errorf (Name (ms ! k)) cause)"
      by blast
    have s3: "ledger s3 = filter (\<lambda>r. name r \<noteq> Name m) (ledger s)"
      "migrations s3 = migrations s" "isLocked s3 = isLocked s" "ran s3 = ran s @ [Name m]"
      using fr True by (simp_all add: s3_def println_def)
    have l': "ledger s' = filter (\<lambda>row. name row \<notin> Name ` set (take (Suc k) (m # ms))) (ledger s)"
      unfolding l s3 by (auto intro: filter_cong)
    show ?thesis
      apply (rule exI[of _ "Suc k"])
      using k l' f rn ok er s3 by auto
  qed
qed

section \<open>The parts that run with the lock held\<close>

lemma Name_scan [simp]: "Name (scan r) = name r" "Batch (scan r) = batch r"
  by (simp_all add: scan_def)

lemma Name_set_scan [simp]: "Name ` scan ` set rows = name ` set rows"
  by (simp add: image_image)

lemma migrate_locked_shape:
  assumes "migrate_locked ms s = (r, s')"
  shows "\<exists>k new. k \<le> length ms \<and> ledger s' = ledger s @ new \<and>
           map name new = map Name (take k ms) \<and>
           list_all (\<lambda>row. batch row = max_batch (ledger s) + 1) new \<and>
           migrations s' = migrations s \<and> isLocked s' = isLocked s \<and>
           (ran s' = ran s @ map Name (take k ms) \<or>
            k < length ms \<and> ran s' = ran s @ map Name (take (Suc k) ms)) \<and>
           (r = NoError \<longrightarrow> k = length ms \<and> ran s' = ran s @ map Name ms)"
proof (cases "next_fault s")
  case (Some e)
  with assms have "s' = sent s" "r = Failed e"
    by (auto simp: migrate_locked_def getLastBatchNumber_eq)
  then show ?thesis by (intro exI[of _ 0] exI[of _ "[]"]) auto
next
  case None
  let ?b = "max_batch (ledger s) + 1"
  let ?s1 = "println (RunningBatch ?b (length ms)) (sent s)"
  from None assms have "migrate_loop ?b ms ?s1 = (r, s')"
    by (simp add: migrate_locked_def getLastBatchNumber_eq Let_def)
  from migrate_loop_shape[OF this] show ?thesis
    by (simp add: println_def) blast
qed

lemma set_select_named:
  "set (fold (\<lambda>n rb'. if Name m = n then rb' @ [m] else rb') ns acc) =
     set acc \<union> (if Name m \<in> set ns then {m} else {})"
  by (induction ns arbitrary: acc) auto

lemma set_select_named':
  "set (fold (\<lambda>mRecord rb. fold (\<lambda>n rb'. if Name mRecord = n then rb' @ [mRecord] else rb') ns rb) c acc) =
     set acc \<union> {m \<in> set c. Name m \<in> set ns}"
  by (induction c arbitrary: acc) (auto simp: set_select_named)

lemma select_named_set: "set (select_named c ns) = {m \<in> set c. Name m \<in> set ns}"
  by (simp add: select_named_def set_select_named')

lemma select_named_names:
  "Name ` set (select_named (map scan rows) ns) = set ns \<inter> name ` set rows"
proof -
  have "name x \<in> Name ` {m \<in> scan ` set rows. Name m \<in> set ns}"
    if "name x \<in> set ns" "x \<in> set rows" for x
    using that by (intro image_eqI[where x = "scan x"]) auto
  then show ?thesis by (auto simp: select_named_set)
qed

lemma rollback_locked_shape:
  assumes "rollback_locked completed s = (r, s')"
    and "completed = map scan (ledger s)"
  defines "rb \<equiv> filter (\<lambda>a. Name a \<in> name ` {row \<in> set (ledger s). batch row = max_batch (ledger s)})
       (migrations s)"
  shows "\<exists>k. k \<le> length rb \<and>
           ledger s' = filter (\<lambda>row. name row \<notin> Name ` set (take k rb)) (ledger s) \<and>
           migrations s' = migrations s \<and> isLocked s' = isLocked s \<and>
           (ran s' = ran s @ map Name (take k rb) \<or>
            k < length rb \<and> ran s' = ran s @ map Name (take (Suc k) rb)) \<and>
           (r = NoError \<and> max_batch (ledger s) \<noteq> 0 \<longrightarrow> k = length rb)"
proof -
  have none: "ledger s' = ledger s \<Longrightarrow> migrations s' = migrations s \<Longrightarrow> isLocked s' = isLocked s \<Longrightarrow>
     ran s' = ran s \<Longrightarrow> (r = NoError \<Longrightarrow> max_batch (ledger s) = 0) \<Longrightarrow> ?thesis"
    by (intro exI[of _ 0]) auto
  show ?thesis
  proof (cases "next_fault s")
    case (Some e)
    with assms have "s' = sent s" "r = Failed e"
      by (auto simp: rollback_locked_def getLastBatchNumber_eq)
    then show ?thesis by (intro none) auto
  next
    case None
    show ?thesis
    proof (cases "max_batch (ledger s) = 0")
      case True
      with None assms have "s' = println NoneRunYet (sent s)" "r = NoError"
        by (auto simp: rollback_locked_def getLastBatchNumber_eq)
      then show ?thesis using True by (intro none) (auto simp: println_def)
    next
      case False
      have "filterMigrations (migrations s)
              (getMigrationsForBatch (map scan (ledger s)) (max_batch (ledger s))) True = rb"
        by (auto simp: filterMigrations_eq getMigrationsForBatch_eq rb_def image_iff intro!: filter_cong)
      with None False assms(1,2)
      have "rollback_loop rb (println (RollingBackBatch (max_batch (ledger s)) (length rb)) (sent s)) = (r, s')"
        by (simp add: rollback_locked_def getLastBatchNumber_eq Let_def)
      from rollback_loop_shape[OF this] show ?thesis
        by (simp add: println_def) blast
    qed
  qed
qed

lemma rollbackNamed_locked_shape:
  fixes s :: "'w state"
  assumes "rollbackNamed_locked completed ns s = (r, s')"
    and "completed = map scan (ledger s)"
  defines "rb \<equiv> filter (\<lambda>a. Name a \<in> set ns \<and> Name a \<in> name ` set (ledger s)) (migrations s)"
  shows "\<exists>k. k \<le> length rb \<and>
           ledger s' = filter (\<lambda>row. name row \<notin> Name ` set (take k rb)) (ledger s) \<and>
           migrations s' = migrations s \<and> isLocked s' = isLocked s \<and>
           (ran s' = ran s @ map Name (take k rb) \<or>
            k < length rb \<and> ran s' = ran s @ map Name (take (Suc k) rb)) \<and>
           (r = NoError \<and> max_batch (ledger s) \<noteq> 0 \<longrightarrow> k = length rb)"
proof -
  have none: "ledger s' = ledger s \<Longrightarrow> migrations s' = migrations s \<Longrightarrow> isLocked s' = isLocked s \<Longrightarrow>
     ran s' = ran s \<Longrightarrow> (r = NoError \<Longrightarrow> max_batch (ledger s) = 0 \<or> rb = []) \<Longrightarrow> ?thesis"
    by (intro exI[of _ 0]) auto
  show ?thesis
  proof (cases "next_fault s")
    case (Some e)
    with assms have "s' = sent s" "r = Failed e"
      by (auto simp: rollbackNamed_locked_def getLastBatchNumber_eq)
    then show ?thesis by (intro none) auto
  next
    case None
    show ?thesis
    proof (cases "max_batch (ledger s) = 0")
      case True
      with None assms have "s' = println NoneRunYet (sent s)" "r = NoError"
        by (auto simp: rollbackNamed_locked_def getLastBatchNumber_eq)
      then show ?thesis using True by (intro none) (auto simp: println_def)
    next
      case False
      let ?sel = "select_named (map scan (ledger s)) ns :: 'w migration list"
      have rb: "filterMigrations (migrations s) ?sel True = rb"
        unfolding filterMigrations_eq rb_def select_named_names by (auto intro!: filter_cong)
      show ?thesis
      proof (cases "?sel = []")
        case True
        then have "Name ` set ?sel = {}" by simp
        then have "set ns \<inter> name ` set (ledger s) = {}"
          by (simp only: select_named_names)
        then have "rb = []" by (auto simp: rb_def filter_empty_conv)
        moreover from True None False assms(1,2) have "s' = println NoSuchNamed (sent s)" "r = NoError"
          by (auto simp: rollbackNamed_locked_def getLastBatchNumber_eq Let_def)
        ultimately show ?thesis by (intro none) (auto simp: println_def)
      next
        case nonempty: False
        with None False assms(1,2) rb
        have "rollback_loop rb (println (RollingBackSelected (length rb)) (sent s)) = (r, s')"
          by (simp add: rollbackNamed_locked_def getLastBatchNumber_eq Let_def)
        from rollback_loop_shape[OF this] show ?thesis
          by (simp add: println_def) blast
      qed
    qed
  qed
qed

lemma migrate_locked_isLocked:
  "migrate_locked ms s = (r, s') \<Longrightarrow> isLocked s' = isLocked s"
  using migrate_locked_shape by blast

lemma rollback_locked_isLocked:
  "rollback_locked completed s = (r, s') \<Longrightarrow> isLocked s' = isLocked s"
  by (auto simp: rollback_locked_def getLastBatchNumber_eq Let_def println_def
      split: option.splits if_splits dest: rollback_loop_shape)

lemma rollbackNamed_locked_isLocked:
  "rollbackNamed_locked completed ns s = (r, s') \<Longrightarrow> isLocked s' = isLocked s"
  by (auto simp: rollbackNamed_locked_def getLastBatchNumber_eq Let_def println_def
      split: option.splits if_splits dest: rollback_loop_shape)

section \<open>Whole runs\<close>

text \<open>No whole run calls an action or changes the ledger, the lock row or the rest of the
  database: the part that would is behind \<^verbatim>\<open>acquireLock\<close>, which does not return
  \<^verbatim>\<open>nil\<close>. So \<^verbatim>\<open>migrate\<close> returns \<^verbatim>\<open>nil\<close> only when nothing is pending, and
  \<^verbatim>\<open>rollback\<close> and \<^verbatim>\<open>rollbackNamed\<close> never do.\<close>

lemma migrate_frame:
  fixes s :: "'w state"
  assumes "migrate s = (r, s')"
  shows "ledger s' = ledger s" "ran s' = ran s" "world s' = world s"
    "isLocked s' = isLocked s" "migrations s' = sort_key Name (migrations s)"
    "r = NoError \<Longrightarrow> pending s = []"
proof -
  let ?s0 = "s\<lparr>migrations := sort_key Name (migrations s)\<rparr>"
  have unc: "filterMigrations (sort_key Name (migrations s)) (map scan (ledger s)) False = pending s"
    by (simp add: filterMigrations_eq pending_def)
  obtain ra sa where a: "acquireLock (sent ?s0) = (ra, sa)" by fastforce
  note fa = acquireLock_frame[OF a]
  have "ledger s' = ledger s \<and> ran s' = ran s \<and> world s' = world s \<and>
    isLocked s' = isLocked s \<and> migrations s' = sort_key Name (migrations s) \<and>
    (r = NoError \<longrightarrow> pending s = [])"
    using assms unc a fa
    by (cases ra)
      (auto simp: migrate_def getCompletedMigrations_eq Let_def println_def
        split: option.splits if_splits)
  then show "ledger s' = ledger s" "ran s' = ran s" "world s' = world s"
    "isLocked s' = isLocked s" "migrations s' = sort_key Name (migrations s)"
    "r = NoError \<Longrightarrow> pending s = []" by auto
qed

lemma rollback_frame:
  fixes s :: "'w state"
  assumes "rollback s = (r, s')"
  shows "ledger s' = ledger s" "ran s' = ran s" "world s' = world s"
    "isLocked s' = isLocked s" "out s' = out s" "r \<noteq> NoError"
proof -
  let ?s0 = "s\<lparr>migrations := sort_descending (migrations s)\<rparr>"
  obtain ra sa where a: "acquireLock (sent ?s0) = (ra, sa)" by fastforce
  note fa = acquireLock_frame[OF a]
  have "ledger s' = ledger s \<and> ran s' = ran s \<and> world s' = world s \<and>
    isLocked s' = isLocked s \<and> out s' = out s \<and> r \<noteq> NoError"
    using assms a fa
    by (cases ra)
      (auto simp: rollback_def getCompletedMigrations_eq Let_def split: option.splits)
  then show "ledger s' = ledger s" "ran s' = ran s" "world s' = world s"
    "isLocked s' = isLocked s" "out s' = out s" "r \<noteq> NoError" by auto
qed

lemma rollbackNamed_frame:
  fixes s :: "'w state"
  assumes "rollbackNamed str s = (r, s')"
  shows "ledger s' = ledger s" "ran s' = ran s" "world s' = world s"
    "isLocked s' = isLocked s" "out s' = out s" "r \<noteq> NoError"
proof -
  let ?s0 = "s\<lparr>migrations := sort_descending (migrations s)\<rparr>"
  obtain ra sa where a: "acquireLock (sent ?s0) = (ra, sa)" by fastforce
  note fa = acquireLock_frame[OF a]
  have "ledger s' = ledger s \<and> ran s' = ran s \<and> world s' = world s \<and>
    isLocked s' = isLocked s \<and> out s' = out s \<and> r \<noteq> NoError"
    using assms a fa
    by (cases ra)
      (auto simp: rollbackNamed_def getCompletedMigrations_eq Let_def split: option.splits)
  then show "ledger s' = ledger s" "ran s' = ran s" "world s' = world s"
    "isLocked s' = isLocked s" "out s' = out s" "r \<noteq> NoError" by auto
qed

text \<open>A run of \<^verbatim>\<open>migrate\<close> that finds nothing pending.\<close>

lemma migrate_idle:
  fixes s :: "'w state"
  assumes "pending s = []"
  shows "ran (snd (migrate s)) = ran s \<and> ledger (snd (migrate s)) = ledger s \<and>
         (succeed 1 s \<longrightarrow>
            fst (migrate s) = NoError \<and> out (snd (migrate s)) = out s @ [UpToDate] \<and>
            faults (snd (migrate s)) = tl (faults s) \<and>
            isLocked (snd (migrate s)) = isLocked s \<and> world (snd (migrate s)) = world s)"
proof -
  obtain r2 s2 where m: "migrate s = (r2, s2)" by fastforce
  note f = migrate_frame[OF m]
  have b: "fst (migrate s) = NoError \<and> out (snd (migrate s)) = out s @ [UpToDate] \<and>
            faults (snd (migrate s)) = tl (faults s) \<and>
            isLocked (snd (migrate s)) = isLocked s \<and> world (snd (migrate s)) = world s"
    if "succeed 1 s"
  proof -
    from assms have "filterMigrations (sort_key Name (migrations s)) (map scan (ledger s)) False = []"
      by (simp add: pending_def filterMigrations_eq)
    moreover from that have "next_fault s = None" by (simp only: succeed_1)
    ultimately show ?thesis
      by (simp add: migrate_def getCompletedMigrations_eq Let_def println_def)
  qed
  from f b m show ?thesis by simp
qed

section \<open>The order of the registry\<close>

lemma sorted_sort_descending: "sorted_wrt (\<lambda>a b. Name a \<ge> Name b) (sort_descending ms)"
proof -
  have "sorted (map Name (sort_key Name (rev ms)))" by simp
  then have "sorted_wrt (\<lambda>a b. Name a \<le> Name b) (sort_key Name (rev ms))"
    by (simp add: sorted_wrt_map)
  then show ?thesis by (simp add: sort_descending_def sorted_wrt_rev)
qed

lemma set_sort_descending [simp]: "set (sort_descending ms) = set ms"
  by (simp add: sort_descending_def)

text \<open>Migrations of the same name keep their order.\<close>

lemma sort_descending_same_name:
  "filter (\<lambda>m. Name m = n) (sort_descending ms) = filter (\<lambda>m. Name m = n) ms"
proof -
  have "filter (\<lambda>m. Name m = n) (sort_key Name (rev ms)) = filter (\<lambda>m. Name m = n) (rev ms)"
    by (rule sort_key_stable)
  then have "rev (filter (\<lambda>m. Name m = n) (sort_key Name (rev ms))) =
             rev (filter (\<lambda>m. Name m = n) (rev ms))" by simp
  then show ?thesis by (simp add: sort_descending_def rev_filter)
qed

section \<open>The last batch number\<close>

lemma fold_signed_max:
  "sint (fold (\<lambda>x m. if m <s batch x then batch x else m) rs m0) =
     Max (insert (sint m0) (sint ` batch ` set rs))"
proof (induction rs arbitrary: m0)
  case Nil
  then show ?case by simp
next
  case (Cons r rs)
  have "Max (insert (sint (if m0 <s batch r then batch r else m0)) (sint ` batch ` set rs)) =
        Max (insert (sint m0) (insert (sint (batch r)) (sint ` batch ` set rs)))"
  proof (cases "rs = []")
    case True
    then show ?thesis by (auto simp: word_sless_alt max_def)
  next
    case False
    then have ne: "sint ` batch ` set rs \<noteq> {}" "finite (sint ` batch ` set rs)" by auto
    show ?thesis using ne by (auto simp: word_sless_alt max_def)
  qed
  with Cons.IH show ?case by simp
qed

lemma max_batch_Max:
  "rows \<noteq> [] \<Longrightarrow> sint (max_batch rows) = Max (sint ` batch ` set rows)"
  by (cases rows) (simp_all add: max_batch_def fold_signed_max)

lemma max_batch_positive:
  assumes "list_all (\<lambda>row. 0 <s batch row) rows" "rows \<noteq> []"
  shows "max_batch rows \<noteq> 0"
proof -
  obtain r rs where rows: "rows = r # rs" using assms(2) by (cases rows) auto
  have "sint (batch r) \<le> Max (sint ` batch ` set rows)"
    by (rule Max_ge) (auto simp: rows)
  moreover have "0 < sint (batch r)" using assms(1) by (simp add: rows word_sless_alt)
  ultimately have "0 < sint (max_batch rows)" by (simp add: max_batch_Max[OF assms(2)])
  then show ?thesis by auto
qed

section \<open>Reading the list of names\<close>

lemma split_commas_no_comma: "CHR '','' \<notin> set n \<Longrightarrow> split_commas n = [n]"
  by (induction n) auto

lemma split_commas_append:
  "CHR '','' \<notin> set n \<Longrightarrow> split_commas (n @ CHR '','' # cs) = n # split_commas cs"
  by (induction n) auto

lemma remove_spaces_id: "CHR '' '' \<notin> set n \<Longrightarrow> remove_spaces n = n"
  by (induction n) (auto simp: remove_spaces_def)

lemma remove_spaces_append: "remove_spaces (xs @ ys) = remove_spaces xs @ remove_spaces ys"
  by (simp add: remove_spaces_def)

text \<open>A list of names without commas and spaces, written with a comma and a space between
  two names, is read back as it was. Spaces do not separate names: they are dropped.\<close>

lemma split_commas_written:
  assumes "names \<noteq> []" and "\<forall>n\<in>set names. CHR '','' \<notin> set n \<and> CHR '' '' \<notin> set n"
  shows "split_commas (remove_spaces (written names)) = names"
  using assms
proof (induction names rule: written.induct)
  case 1
  then show ?case by simp
next
  case (2 n)
  then show ?case by (simp add: remove_spaces_id split_commas_no_comma)
next
  case (3 n m ns)
  then have "split_commas (remove_spaces (written (m # ns))) = m # ns" by simp
  moreover have "remove_spaces (written (n # m # ns)) = n @ CHR '','' # remove_spaces (written (m # ns))"
    using 3 by (simp add: remove_spaces_append remove_spaces_id) (simp add: remove_spaces_def)
  ultimately show ?case using 3 by (simp add: split_commas_append)
qed

lemma spaces_do_not_separate: "split_commas (remove_spaces ''B A'') = [''BA'']"
  by (simp add: remove_spaces_def)

section \<open>What the parts under the lock do\<close>

text \<open>
  The part of \<^verbatim>\<open>rollback\<close> under the lock, run on a ledger that holds each name once:
  whatever it returns, the rows whose batch is not the greatest batch number stay as they
  were, in their order; no row is added; and every action called belongs to a row of the
  greatest batch. When it returns \<^verbatim>\<open>nil\<close> and the batch numbers are positive, the rows
  deleted are exactly those of the greatest batch whose name is registered.
\<close>

lemma rollback_locked_last_batch_only:
  fixes s :: "'w state"
  assumes "rollback_locked (map scan (ledger s)) s = (r, s')" and "distinct (map name (ledger s))"
  shows "filter (\<lambda>row. batch row \<noteq> max_batch (ledger s)) (ledger s') =
         filter (\<lambda>row. batch row \<noteq> max_batch (ledger s)) (ledger s) \<and>
         (\<exists>P. ledger s' = filter P (ledger s)) \<and>
         (\<exists>names. ran s' = ran s @ names \<and>
            set names \<subseteq> name ` {row \<in> set (ledger s). batch row = max_batch (ledger s)}) \<and>
         (r = NoError \<and> list_all (\<lambda>row. 0 <s batch row) (ledger s) \<longrightarrow>
            ledger s' = filter (\<lambda>row. \<not> (batch row = max_batch (ledger s) \<and>
                                         name row \<in> Name ` set (migrations s))) (ledger s))"
proof -
  let ?b = "max_batch (ledger s)"
  from rollback_locked_shape[OF assms(1) refl, folded last_batch_def] obtain k where
    k: "k \<le> length (last_batch s)" and
    l: "ledger s' = filter (\<lambda>row. name row \<notin> Name ` set (take k (last_batch s))) (ledger s)" and
    rn: "ran s' = ran s @ map Name (take k (last_batch s)) \<or>
         k < length (last_batch s) \<and> ran s' = ran s @ map Name (take (Suc k) (last_batch s))" and
    ok: "r = NoError \<and> ?b \<noteq> 0 \<longrightarrow> k = length (last_batch s)"
    by blast
  have uniq: "batch row = ?b"
    if "row \<in> set (ledger s)" "name row \<in> Name ` set (last_batch s)" for row
  proof -
    from that(2) obtain row' where "row' \<in> set (ledger s)" "batch row' = ?b" "name row' = name row"
      by (auto simp: last_batch_def)
    with that(1) assms(2) have "row' = row"
      by (meson distinct_map inj_onD)
    with \<open>batch row' = ?b\<close> show ?thesis by simp
  qed
  have sub: "set (take n (last_batch s)) \<subseteq> set (last_batch s)" for n
    by (rule set_take_subset)
  have 1: "filter (\<lambda>row. batch row \<noteq> ?b) (ledger s') = filter (\<lambda>row. batch row \<noteq> ?b) (ledger s)"
    unfolding l filter_filter using uniq sub[of k] by (intro filter_cong) auto
  have 2: "\<exists>P. ledger s' = filter P (ledger s)" using l by blast
  have names: "Name ` set (last_batch s) \<subseteq> name ` {row \<in> set (ledger s). batch row = ?b}"
    by (auto simp: last_batch_def)
  have 3: "\<exists>names. ran s' = ran s @ names \<and>
            set names \<subseteq> name ` {row \<in> set (ledger s). batch row = ?b}"
  proof -
    from rn obtain n where "ran s' = ran s @ map Name (take n (last_batch s))" by blast
    moreover have "set (map Name (take n (last_batch s))) \<subseteq> name ` {row \<in> set (ledger s). batch row = ?b}"
      using sub[of n] names by auto
    ultimately show ?thesis by blast
  qed
  have 4: "ledger s' = filter (\<lambda>row. \<not> (batch row = ?b \<and> name row \<in> Name ` set (migrations s))) (ledger s)"
    if "r = NoError" "list_all (\<lambda>row. 0 <s batch row) (ledger s)"
  proof (cases "ledger s = []")
    case True
    then show ?thesis by (simp add: l)
  next
    case False
    with that ok max_batch_positive have "k = length (last_batch s)" by blast
    then have "ledger s' = filter (\<lambda>row. name row \<notin> Name ` set (last_batch s)) (ledger s)"
      using l by simp
    also have "\<dots> = filter (\<lambda>row. \<not> (batch row = ?b \<and> name row \<in> Name ` set (migrations s))) (ledger s)"
    proof (intro filter_cong refl)
      fix row assume row: "row \<in> set (ledger s)"
      have m: "set (last_batch s) =
          {a \<in> set (migrations s). Name a \<in> name ` {row \<in> set (ledger s). batch row = ?b}}"
        by (auto simp: last_batch_def)
      have "batch row = ?b \<and> name row \<in> Name ` set (migrations s)"
        if "name row \<in> Name ` set (last_batch s)"
        using uniq[OF row that] that m by auto
      moreover have "name row \<in> Name ` set (last_batch s)"
        if "batch row = ?b" "name row \<in> Name ` set (migrations s)"
      proof -
        from that(2) obtain a where a: "a \<in> set (migrations s)" "Name a = name row" by auto
        with row that(1) have "a \<in> set (last_batch s)" unfolding m by force
        with a(2) show ?thesis by force
      qed
      ultimately show "(name row \<notin> Name ` set (last_batch s)) =
            (\<not> (batch row = ?b \<and> name row \<in> Name ` set (migrations s)))"
        by blast
    qed
    finally show ?thesis .
  qed
  from 1 2 3 4 show ?thesis by blast
qed

text \<open>
  The part of \<^verbatim>\<open>rollbackNamed\<close> under the lock, given the names \<open>ns\<close>: whatever it
  returns, the rows of every name outside \<open>named ns s\<close> stay as they were, no row is
  added, and the actions called are those of the first \<open>k\<close> migrations of \<open>named ns s\<close>,
  in the order of the registry, greatest name first once the run has sorted it. When it
  returns \<^verbatim>\<open>nil\<close> and the batch numbers are positive, all of \<open>named ns s\<close> have been
  reversed and their rows, and no other, deleted.
\<close>

lemma rollbackNamed_locked_selection:
  fixes s :: "'w state"
  assumes "rollbackNamed_locked (map scan (ledger s)) ns s = (r, s')"
  shows "filter (\<lambda>row. name row \<notin> Name ` set (named ns s)) (ledger s') =
         filter (\<lambda>row. name row \<notin> Name ` set (named ns s)) (ledger s) \<and>
         (\<exists>P. ledger s' = filter P (ledger s)) \<and>
         (\<exists>k. ran s' = ran s @ map Name (take k (named ns s))) \<and>
         (sorted_wrt (\<lambda>a b. Name a \<ge> Name b) (migrations s) \<longrightarrow>
            sorted_wrt (\<lambda>a b. Name a \<ge> Name b) (named ns s)) \<and>
         (r = NoError \<and> list_all (\<lambda>row. 0 <s batch row) (ledger s) \<longrightarrow>
            ran s' = ran s @ map Name (named ns s) \<and>
            ledger s' = filter (\<lambda>row. name row \<notin> Name ` set (named ns s)) (ledger s))"
proof -
  from rollbackNamed_locked_shape[OF assms(1) refl, folded named_def] obtain k where
    k: "k \<le> length (named ns s)" and
    l: "ledger s' = filter (\<lambda>row. name row \<notin> Name ` set (take k (named ns s))) (ledger s)" and
    rn: "ran s' = ran s @ map Name (take k (named ns s)) \<or>
         k < length (named ns s) \<and> ran s' = ran s @ map Name (take (Suc k) (named ns s))" and
    ok: "r = NoError \<and> max_batch (ledger s) \<noteq> 0 \<longrightarrow> k = length (named ns s)"
    by blast
  have sub: "set (take n (named ns s)) \<subseteq> set (named ns s)" for n
    by (rule set_take_subset)
  have 1: "filter (\<lambda>row. name row \<notin> Name ` set (named ns s)) (ledger s') =
         filter (\<lambda>row. name row \<notin> Name ` set (named ns s)) (ledger s)"
    unfolding l filter_filter using sub[of k] by (intro filter_cong) auto
  have 2: "\<exists>P. ledger s' = filter P (ledger s)" using l by blast
  have 3: "\<exists>k. ran s' = ran s @ map Name (take k (named ns s))" using rn by blast
  have 4: "sorted_wrt (\<lambda>a b. Name a \<ge> Name b) (migrations s) \<longrightarrow>
            sorted_wrt (\<lambda>a b. Name a \<ge> Name b) (named ns s)"
    unfolding named_def by (auto intro: sorted_wrt_filter)
  have 5: "ran s' = ran s @ map Name (named ns s) \<and>
            ledger s' = filter (\<lambda>row. name row \<notin> Name ` set (named ns s)) (ledger s)"
    if "r = NoError" "list_all (\<lambda>row. 0 <s batch row) (ledger s)"
  proof (cases "ledger s = []")
    case True
    then have "named ns s = []" by (simp add: named_def)
    with k rn l show ?thesis by simp
  next
    case False
    with that ok max_batch_positive have "k = length (named ns s)" by blast
    with rn l show ?thesis by simp
  qed
  from 1 2 3 4 5 show ?thesis by blast
qed

section \<open>The example inputs, run\<close>

lemmas run_simps = stmt_def RunInTransaction_def restore_def println_def call_def scan_def
  getCompletedMigrations_def acquireLock_def releaseLock_def defer_releaseLock_def
  update_lock_def getLastBatchNumber_def now_def insert_row_def run_action_def
  migrate_locked_def delete_rows_def rollback_locked_def sort_descending_def
  rollbackNamed_locked_def rollback_under_lock_def
  succeeding_def erring_def registered_def entry_def database_def

lemmas migrate_simps = migrate_def filterMigrations_def lookup_def Let_def

lemmas rollback_simps = rollback_def rollbackNamed_def filterMigrations_def lookup_def Let_def
  getMigrationsForBatch_def select_named_def remove_spaces_def max_batch_def

section \<open>Failure in the middle of a run\<close>

text \<open>
  Claim C1. When the first \<open>k\<close> migrations of the list have gone through and the action
  of the migration at position \<open>k\<close> returns an error (from the action itself or from its
  transaction), the loop returns at once with that error behind the migration's name.
  In \<^verbatim>\<open>migrate\<close> the ledger has gained the rows of the first \<open>k\<close> migrations and no
  other, each with the batch of the run; in the rollback loop it has lost the rows named
  by the first \<open>k\<close> migrations and no other. No action after the one at position \<open>k\<close>
  has been called.
\<close>

theorem fail_fast:
  "(k < length ms \<and> migrate_loop b (take k ms) s = (NoError, sk) \<and>
    run_action (ms ! k) (Up (ms ! k)) sk = (Failed err, sf)
    \<longrightarrow> migrate_loop b ms s = (Failed (Errorf (Name (ms ! k)) err), sf) \<and>
        (\<forall>t. Error t (Errorf (Name (ms ! k)) err) = Name (ms ! k) @ '': '' @ Error t err) \<and>
        (\<exists>new. ledger sf = ledger s @ new \<and> map name new = map Name (take k ms) \<and>
               list_all (\<lambda>row. batch row = b) new) \<and>
        (ran sf = ran s @ map Name (take k ms) \<or> ran sf = ran s @ map Name (take (Suc k) ms)))
   \<and>
   (j < length rb \<and> rollback_loop (take j rb) t = (NoError, sj) \<and>
    run_action (rb ! j) (Down (rb ! j)) sj = (Failed err', sf')
    \<longrightarrow> rollback_loop rb t = (Failed (Errorf (Name (rb ! j)) err'), sf') \<and>
        (\<forall>x. Error x (Errorf (Name (rb ! j)) err') = Name (rb ! j) @ '': '' @ Error x err') \<and>
        ledger sf' = filter (\<lambda>row. name row \<notin> Name ` set (take j rb)) (ledger t) \<and>
        (ran sf' = ran t @ map Name (take j rb) \<or> ran sf' = ran t @ map Name (take (Suc j) rb)))"
proof (intro conjI impI)
  assume a: "k < length ms \<and> migrate_loop b (take k ms) s = (NoError, sk) \<and>
    run_action (ms ! k) (Up (ms ! k)) sk = (Failed err, sf)"
  then have k: "k < length ms" and pre: "migrate_loop b (take k ms) s = (NoError, sk)"
    and act: "run_action (ms ! k) (Up (ms ! k)) sk = (Failed err, sf)" by auto
  have split: "ms = take k ms @ (ms ! k) # drop (Suc k) ms"
    using k by (simp add: id_take_nth_drop)
  have "migrate_loop b ms s = migrate_loop b ((ms ! k) # drop (Suc k) ms) sk"
    by (subst split, subst migrate_loop_append) (simp add: pre)
  also have "\<dots> = (Failed (Errorf (Name (ms ! k)) err), sf)"
    by (simp add: Let_def act)
  finally show "migrate_loop b ms s = (Failed (Errorf (Name (ms ! k)) err), sf)" .
  from migrate_loop_shape[OF pre] obtain new where
    new: "ledger sk = ledger s @ new" "map name new = map Name (take k ms)"
      "list_all (\<lambda>row. batch row = b) new" and rn: "ran sk = ran s @ map Name (take k ms)"
    using k by auto
  from run_action_frame[OF act] have fr: "ledger sf = ledger sk"
    "ran sf = ran sk \<or> ran sf = ran sk @ [Name (ms ! k)]" by auto
  show "\<exists>new. ledger sf = ledger s @ new \<and> map name new = map Name (take k ms) \<and>
               list_all (\<lambda>row. batch row = b) new"
    using new fr by auto
  show "ran sf = ran s @ map Name (take k ms) \<or> ran sf = ran s @ map Name (take (Suc k) ms)"
    using fr rn k by (auto simp: take_Suc_conv_app_nth)
next
  assume a: "j < length rb \<and> rollback_loop (take j rb) t = (NoError, sj) \<and>
    run_action (rb ! j) (Down (rb ! j)) sj = (Failed err', sf')"
  then have k: "j < length rb" and pre: "rollback_loop (take j rb) t = (NoError, sj)"
    and act: "run_action (rb ! j) (Down (rb ! j)) sj = (Failed err', sf')" by auto
  have split: "rb = take j rb @ (rb ! j) # drop (Suc j) rb"
    using k by (simp add: id_take_nth_drop)
  have "rollback_loop rb t = rollback_loop ((rb ! j) # drop (Suc j) rb) sj"
    by (subst split, subst rollback_loop_append) (simp add: pre)
  also have "\<dots> = (Failed (Errorf (Name (rb ! j)) err'), sf')"
    by (simp add: act)
  finally show "rollback_loop rb t = (Failed (Errorf (Name (rb ! j)) err'), sf')" .
  from rollback_loop_shape[OF pre] have
    new: "ledger sj = filter (\<lambda>row. name row \<notin> Name ` set (take j rb)) (ledger t)"
     and rn: "ran sj = ran t @ map Name (take j rb)"
    using k by auto
  from run_action_frame[OF act] have fr: "ledger sf' = ledger sj"
    "ran sf' = ran sj \<or> ran sf' = ran sj @ [Name (rb ! j)]" by auto
  show "ledger sf' = filter (\<lambda>row. name row \<notin> Name ` set (take j rb)) (ledger t)"
    using new fr by auto
  show "ran sf' = ran t @ map Name (take j rb) \<or> ran sf' = ran t @ map Name (take (Suc j) rb)"
    using fr rn k by (auto simp: take_Suc_conv_app_nth)
qed simp_all

theorem fail_fast_witness:
  "(1 < length up_list \<and>
    fst (migrate_loop 7 (take 1 up_list) (database [] [] True [])) = NoError \<and>
    fst (run_action (up_list ! 1) (Up (up_list ! 1)) (snd (migrate_loop 7 (take 1 up_list) (database [] [] True []))))
      = Failed (ErrMsg ''error'') \<and>
    fst (migrate_loop 7 up_list (database [] [] True [])) = Failed (Errorf ''B'' (ErrMsg ''error'')) \<and>
    ledger (snd (migrate_loop 7 up_list (database [] [] True []))) = [\<lparr>name = ''A'', batch = 7, completed_at = 0\<rparr>] \<and>
    ran (snd (migrate_loop 7 up_list (database [] [] True []))) = [''A'', ''B'']) \<and>
   (1 < length down_list \<and>
    fst (rollback_loop (take 1 down_list) (database [] [entry ''A'' 1, entry ''B'' 1, entry ''C'' 1] True [])) = NoError \<and>
    fst (rollback_loop down_list (database [] [entry ''A'' 1, entry ''B'' 1, entry ''C'' 1] True [])) = Failed (Errorf ''B'' (ErrMsg ''error'')) \<and>
    ledger (snd (rollback_loop down_list (database [] [entry ''A'' 1, entry ''B'' 1, entry ''C'' 1] True []))) = [entry ''A'' 1, entry ''B'' 1] \<and>
    ran (snd (rollback_loop down_list (database [] [entry ''A'' 1, entry ''B'' 1, entry ''C'' 1] True []))) = [''C'', ''B''])"
proof -
  let ?s = "database [] [] True []"
  let ?t = "database [] [entry ''A'' 1, entry ''B'' 1, entry ''C'' 1] True []"
  let ?sk = "snd (migrate_loop 7 (take 1 up_list) ?s)"
  let ?sf = "snd (run_action (up_list ! 1) (Up (up_list ! 1)) ?sk)"
  let ?sj = "snd (rollback_loop (take 1 down_list) ?t)"
  let ?sf' = "snd (run_action (down_list ! 1) (Down (down_list ! 1)) ?sj)"
  have f: "fst (migrate_loop 7 (take 1 up_list) ?s) = NoError"
    "fst (run_action (up_list ! 1) (Up (up_list ! 1)) ?sk) = Failed (ErrMsg ''error'')"
    "fst (rollback_loop (take 1 down_list) ?t) = NoError"
    "fst (run_action (down_list ! 1) (Down (down_list ! 1)) ?sj) = Failed (ErrMsg ''error'')"
    by (simp_all add: up_list_def down_list_def run_simps Let_def)
  have sk: "migrate_loop 7 (take 1 up_list) ?s = (NoError, ?sk)"
    and sf: "run_action (up_list ! 1) (Up (up_list ! 1)) ?sk = (Failed (ErrMsg ''error''), ?sf)"
    and sj: "rollback_loop (take 1 down_list) ?t = (NoError, ?sj)"
    and sf': "run_action (down_list ! 1) (Down (down_list ! 1)) ?sj = (Failed (ErrMsg ''error''), ?sf')"
    using f by (simp_all add: prod_eq_iff)
  have l: "1 < length up_list" "1 < length down_list" by (simp_all add: up_list_def down_list_def)
  note th = fail_fast[where k = 1 and ms = up_list and b = 7 and s = ?s and sk = ?sk and sf = ?sf
      and err = "ErrMsg ''error''" and j = 1 and rb = down_list and t = ?t and sj = ?sj and sf' = ?sf'
      and err' = "ErrMsg ''error''"]
  from th l sk sf have 1: "migrate_loop 7 up_list ?s = (Failed (Errorf (Name (up_list ! 1)) (ErrMsg ''error'')), ?sf)"
    by blast
  from th l sj sf' have 2: "rollback_loop down_list ?t = (Failed (Errorf (Name (down_list ! 1)) (ErrMsg ''error'')), ?sf')"
    by blast
  have 3: "ledger ?sf = [\<lparr>name = ''A'', batch = 7, completed_at = 0\<rparr>]" "ran ?sf = [''A'', ''B'']"
    by (simp_all add: up_list_def run_simps Let_def)
  have 4: "ledger ?sf' = [entry ''A'' 1, entry ''B'' 1]" "ran ?sf' = [''C'', ''B'']"
    by (simp_all add: down_list_def run_simps Let_def)
  have 5: "Name (up_list ! 1) = ''B''" "Name (down_list ! 1) = ''B''"
    by (simp_all add: up_list_def down_list_def registered_def)
  show ?thesis
    unfolding 1 2 using l f 3 4 5 by simp
qed

section \<open>Acquiring the lock\<close>

text \<open>
  Claim C2. While the lock row says locked, \<^verbatim>\<open>acquireLock\<close> returns an error and
  changes nothing but the script of the driver; the error is \<^verbatim>\<open>ErrAlreadyLocked\<close> once
  the transaction has begun and the row has been read. While the row says unlocked the
  claim fails on the code: once the transaction has begun and the row has been read,
  \<^verbatim>\<open>acquireLock\<close> returns the ORM's error for an update without a Where clause, and the
  row still says unlocked. \<^verbatim>\<open>acquireLock\<close> never returns \<^verbatim>\<open>nil\<close> and never changes the
  row.
\<close>

theorem acquireLock_while_locked:
  "(isLocked s \<longrightarrow>
      (\<exists>err. fst (acquireLock s) = Failed err) \<and>
      (succeed 2 s \<longrightarrow> fst (acquireLock s) = Failed ErrAlreadyLocked) \<and>
      snd (acquireLock s) = s\<lparr>faults := faults (snd (acquireLock s))\<rparr>) \<and>
   (\<not> isLocked s \<and> succeed 2 s \<longrightarrow>
      acquireLock s = (Failed ErrWhereClause, s\<lparr>faults := drop 2 (faults s)\<rparr>)) \<and>
   fst (acquireLock s) \<noteq> NoError \<and> isLocked (snd (acquireLock s)) = isLocked s"
proof (intro conjI impI)
  assume "isLocked s"
  then show "\<exists>err. fst (acquireLock s) = Failed err"
    by (simp add: acquireLock_eq split: option.splits)
  show "snd (acquireLock s) = s\<lparr>faults := faults (snd (acquireLock s))\<rparr>"
    by (simp add: acquireLock_eq sent_def split: option.splits)
  assume "succeed 2 s"
  then show "fst (acquireLock s) = Failed ErrAlreadyLocked"
    using \<open>isLocked s\<close> by (simp add: acquireLock_eq succeed_2)
next
  assume a: "\<not> isLocked s \<and> succeed 2 s"
  have d: "sent (sent s) = s\<lparr>faults := drop 2 (faults s)\<rparr>"
    using sent_drop[of 2 s] by (simp add: eval_nat_numeral)
  from a show "acquireLock s = (Failed ErrWhereClause, s\<lparr>faults := drop 2 (faults s)\<rparr>)"
    by (simp add: acquireLock_eq succeed_2 d)
next
  show "fst (acquireLock s) \<noteq> NoError"
    by (simp add: acquireLock_eq split: option.splits)
  show "isLocked (snd (acquireLock s)) = isLocked s"
    by (simp add: acquireLock_eq split: option.splits)
qed

theorem acquireLock_while_locked_witness:
  "isLocked (one_recorded True) \<and> succeed 2 (one_recorded True) \<and>
   acquireLock (one_recorded True) = (Failed ErrAlreadyLocked, one_recorded True) \<and>
   \<not> isLocked (one_recorded False) \<and> succeed 2 (one_recorded False) \<and>
   acquireLock (one_recorded False) = (Failed ErrWhereClause, one_recorded False)"
  using acquireLock_while_locked[of "one_recorded True"]
    acquireLock_while_locked[of "one_recorded False"]
  by (simp add: one_recorded_def database_def succeed_def acquireLock_def RunInTransaction_def
      stmt_def restore_def update_lock_def)

section \<open>Rollback with nothing to roll back\<close>

text \<open>
  Claim C3, amended. Neither \<^verbatim>\<open>rollback\<close> nor \<^verbatim>\<open>rollbackNamed\<close> returns before it has
  called \<^verbatim>\<open>acquireLock\<close>, which comes before they look at the batch number or at the
  names. With the lock held (and the query for the completed migrations, BEGIN and the
  SELECT of the lock row succeeding) both return \<^verbatim>\<open>ErrAlreadyLocked\<close>, print nothing,
  call no action and leave the ledger and the lock row as they were: whatever the ledger
  holds, no batch at all included, and whatever the list of names selects, nothing
  included.
\<close>

theorem rollback_locks_first:
  fixes s :: "'w state"
  shows
  "isLocked s \<and> succeed 3 s \<longrightarrow>
      fst (rollback s) = Failed ErrAlreadyLocked \<and>
      fst (rollbackNamed str s) = Failed ErrAlreadyLocked \<and>
      out (snd (rollback s)) = out s \<and> ran (snd (rollback s)) = ran s \<and>
      ledger (snd (rollback s)) = ledger s \<and> isLocked (snd (rollback s)) \<and>
      out (snd (rollbackNamed str s)) = out s \<and> ran (snd (rollbackNamed str s)) = ran s \<and>
      ledger (snd (rollbackNamed str s)) = ledger s \<and> isLocked (snd (rollbackNamed str s))"
proof
  assume "isLocked s \<and> succeed 3 s"
  then have h: "isLocked s" "next_fault s = None" "next_fault (sent s) = None"
    "next_fault (sent (sent s)) = None" by (simp_all add: succeed_3)
  have 1: "fst (rollback s) = Failed ErrAlreadyLocked"
    using h by (simp add: rollback_def Let_def getCompletedMigrations_eq acquireLock_eq)
  have 2: "fst (rollbackNamed str s) = Failed ErrAlreadyLocked"
    using h by (simp add: rollbackNamed_def Let_def getCompletedMigrations_eq acquireLock_eq)
  have 3: "rollback s = (fst (rollback s), snd (rollback s))"
    "rollbackNamed str s = (fst (rollbackNamed str s), snd (rollbackNamed str s))" by simp_all
  from rollback_frame[OF 3(1)] rollbackNamed_frame[OF 3(2)] 1 2 h(1)
  show "fst (rollback s) = Failed ErrAlreadyLocked \<and>
      fst (rollbackNamed str s) = Failed ErrAlreadyLocked \<and>
      out (snd (rollback s)) = out s \<and> ran (snd (rollback s)) = ran s \<and>
      ledger (snd (rollback s)) = ledger s \<and> isLocked (snd (rollback s)) \<and>
      out (snd (rollbackNamed str s)) = out s \<and> ran (snd (rollbackNamed str s)) = ran s \<and>
      ledger (snd (rollbackNamed str s)) = ledger s \<and> isLocked (snd (rollbackNamed str s))"
    by simp
qed

theorem rollback_locks_first_witness:
  "isLocked (never_run True) \<and> succeed 3 (never_run True) \<and>
   max_batch (ledger (never_run True)) = 0 \<and>
   fst (rollback (never_run True)) = Failed ErrAlreadyLocked \<and>
   out (snd (rollback (never_run True))) = [] \<and>
   isLocked (one_recorded True) \<and> succeed 3 (one_recorded True) \<and>
   set (split_commas (remove_spaces ''B'')) \<inter> name ` set (ledger (one_recorded True)) = {} \<and>
   fst (rollbackNamed ''B'' (one_recorded True)) = Failed ErrAlreadyLocked \<and>
   out (snd (rollbackNamed ''B'' (one_recorded True))) = [] \<and>
   ledger (snd (rollbackNamed ''B'' (one_recorded True))) = [entry ''A'' 1]"
proof -
  have h: "isLocked (never_run True)" "succeed 3 (never_run True)"
    "max_batch (ledger (never_run True)) = 0"
    "isLocked (one_recorded True)" "succeed 3 (one_recorded True)"
    "set (split_commas (remove_spaces ''B'')) \<inter> name ` set (ledger (one_recorded True)) = {}"
    by (simp_all add: never_run_def one_recorded_def database_def entry_def succeed_def
        max_batch_def remove_spaces_def)
  from rollback_locks_first[of "never_run True" "''B''"]
    rollback_locks_first[of "one_recorded True" "''B''"] h
  show ?thesis by (auto simp: never_run_def one_recorded_def database_def)
qed

text \<open>
  Claim C3 as it was stated fails: with no batch in the ledger and the lock held,
  \<^verbatim>\<open>rollback\<close> is not a silent no-op but returns \<^verbatim>\<open>ErrAlreadyLocked\<close>, and so does
  \<^verbatim>\<open>rollbackNamed\<close> when no completed entry has a listed name.
\<close>

theorem rollback_short_circuit_counterexample:
  "max_batch (ledger (never_run True)) = 0 \<and>
   fst (rollback (never_run True)) = Failed ErrAlreadyLocked \<and>
   select_named (map scan (ledger (one_recorded True))) (split_commas (remove_spaces ''B''))
     = ([] :: nat migration list) \<and>
   fst (rollbackNamed ''B'' (one_recorded True)) = Failed ErrAlreadyLocked"
  by (simp add: never_run_def one_recorded_def run_simps rollback_simps)

section \<open>A run with nothing to apply\<close>

text \<open>
  Claim C4. For every registry and ledger, when the query for the completed migrations
  succeeds and no registered migration is pending, \<^verbatim>\<open>migrate\<close> returns \<^verbatim>\<open>nil\<close> after
  printing \<^verbatim>\<open>Migrations already up to date\<close>. That one query is the only statement it
  sends: the lock row is neither read nor written (whatever it says), the ledger is
  unchanged and no action is called.
\<close>

theorem migrate_up_to_date:
  assumes "succeed 1 s" and "filterMigrations (migrations s) (map scan (ledger s)) False = []"
  shows "\<exists>s'. migrate s = (NoError, s') \<and> out s' = out s @ [UpToDate] \<and>
           ledger s' = ledger s \<and> isLocked s' = isLocked s \<and> faults s' = tl (faults s) \<and>
           ran s' = ran s \<and> world s' = world s"
proof -
  from assms(2) have "filterMigrations (sort_key Name (migrations s)) (map scan (ledger s)) False = []"
    by (simp add: filterMigrations_eq filter_empty_conv)
  moreover from assms(1) have "next_fault s = None" by (simp only: succeed_1)
  ultimately show ?thesis
    by (simp add: migrate_def getCompletedMigrations_eq Let_def println_def)
qed

theorem migrate_up_to_date_witness:
  "succeed 1 (one_recorded True) \<and>
   filterMigrations (migrations (one_recorded True)) (map scan (ledger (one_recorded True))) False = [] \<and>
   isLocked (one_recorded True) \<and> fst (migrate (one_recorded True)) = NoError \<and>
   out (snd (migrate (one_recorded True))) = [UpToDate] \<and>
   ledger (snd (migrate (one_recorded True))) = ledger (one_recorded True) \<and>
   isLocked (snd (migrate (one_recorded True)))"
proof -
  have h: "succeed 1 (one_recorded True)"
    "filterMigrations (migrations (one_recorded True)) (map scan (ledger (one_recorded True))) False = []"
    by (simp_all add: one_recorded_def succeed_def run_simps filterMigrations_def lookup_def)
  from migrate_up_to_date[OF h] h show ?thesis
    by (auto simp: one_recorded_def database_def)
qed

section \<open>Applying twice\<close>

text \<open>
  Claim C5. After a run of \<^verbatim>\<open>migrate\<close> that returned \<^verbatim>\<open>nil\<close>, a second run calls no
  action and writes nothing to the ledger, and when its query for the completed migrations
  succeeds it sends that one query only, prints \<^verbatim>\<open>Migrations already up to date\<close> and
  returns \<^verbatim>\<open>nil\<close>. The same holds of a run of \<^verbatim>\<open>migrate\<close> that follows the part under
  the lock having gone through the pending migrations and returned \<^verbatim>\<open>nil\<close>.
\<close>

theorem migrate_twice:
  fixes s t :: "'w state"
  shows
  "(migrate s = (NoError, s1) \<longrightarrow>
      ran (snd (migrate s1)) = ran s1 \<and> ledger (snd (migrate s1)) = ledger s1 \<and>
      (succeed 1 s1 \<longrightarrow>
         fst (migrate s1) = NoError \<and> out (snd (migrate s1)) = out s1 @ [UpToDate] \<and>
         faults (snd (migrate s1)) = tl (faults s1) \<and>
         isLocked (snd (migrate s1)) = isLocked s1 \<and> world (snd (migrate s1)) = world s1)) \<and>
   (migrate_locked (filterMigrations (migrations t) (map scan (ledger t)) False) t = (NoError, t1) \<longrightarrow>
      ran (snd (migrate t1)) = ran t1 \<and> ledger (snd (migrate t1)) = ledger t1 \<and>
      (succeed 1 t1 \<longrightarrow>
         fst (migrate t1) = NoError \<and> out (snd (migrate t1)) = out t1 @ [UpToDate] \<and>
         faults (snd (migrate t1)) = tl (faults t1) \<and>
         isLocked (snd (migrate t1)) = isLocked t1 \<and> world (snd (migrate t1)) = world t1))"
proof (rule conjI; rule impI)
  assume m: "migrate s = (NoError, s1)"
  note f = migrate_frame[OF m]
  from f(6) have "pending s = []" by simp
  then have "pending s1 = []"
    by (simp add: pending_def f(1) f(5) filter_empty_conv)
  from migrate_idle[OF this]
  show "ran (snd (migrate s1)) = ran s1 \<and> ledger (snd (migrate s1)) = ledger s1 \<and>
      (succeed 1 s1 \<longrightarrow>
         fst (migrate s1) = NoError \<and> out (snd (migrate s1)) = out s1 @ [UpToDate] \<and>
         faults (snd (migrate s1)) = tl (faults s1) \<and>
         isLocked (snd (migrate s1)) = isLocked s1 \<and> world (snd (migrate s1)) = world s1)" .
next
  let ?ms = "filterMigrations (migrations t) (map scan (ledger t)) False"
  assume m: "migrate_locked ?ms t = (NoError, t1)"
  from migrate_locked_shape[OF m] obtain new where
    l: "ledger t1 = ledger t @ new" "map name new = map Name ?ms"
    and r: "migrations t1 = migrations t" by auto
  have n: "name ` set new = Name ` set ?ms"
    using l(2) by (metis image_set)
  have "Name a \<in> name ` set (ledger t1)" if "a \<in> set (migrations t)" for a
  proof (cases "Name a \<in> name ` set (ledger t)")
    case True
    then show ?thesis by (auto simp: l(1))
  next
    case False
    with that have "a \<in> set ?ms" by (simp add: filterMigrations_eq)
    then have "Name a \<in> name ` set new" using n by blast
    then show ?thesis by (auto simp: l(1))
  qed
  then have "pending t1 = []" by (simp add: pending_def r filter_empty_conv)
  from migrate_idle[OF this]
  show "ran (snd (migrate t1)) = ran t1 \<and> ledger (snd (migrate t1)) = ledger t1 \<and>
      (succeed 1 t1 \<longrightarrow>
         fst (migrate t1) = NoError \<and> out (snd (migrate t1)) = out t1 @ [UpToDate] \<and>
         faults (snd (migrate t1)) = tl (faults t1) \<and>
         isLocked (snd (migrate t1)) = isLocked t1 \<and> world (snd (migrate t1)) = world t1)" .
qed

lemma fresh_applied:
  "filterMigrations (migrations fresh) (map scan (ledger fresh)) False =
     [registered ''B'' succeeding succeeding, registered ''A'' succeeding succeeding]"
  "fst (migrate_locked [registered ''B'' succeeding succeeding,
                        registered ''A'' succeeding succeeding] fresh) = NoError"
  "ledger (snd (migrate_locked [registered ''B'' succeeding succeeding,
                                registered ''A'' succeeding succeeding] fresh)) =
     [entry ''0'' 4, \<lparr>name = ''B'', batch = 5, completed_at = 0\<rparr>,
      \<lparr>name = ''A'', batch = 5, completed_at = 1\<rparr>]"
  "ran (snd (migrate_locked [registered ''B'' succeeding succeeding,
                             registered ''A'' succeeding succeeding] fresh)) = [''B'', ''A'']"
  "faults (snd (migrate_locked [registered ''B'' succeeding succeeding,
                                registered ''A'' succeeding succeeding] fresh)) = []"
  "out (snd (migrate_locked [registered ''B'' succeeding succeeding,
                             registered ''A'' succeeding succeeding] fresh)) =
     [RunningBatch 5 2, FinishedRunning ''B'', FinishedRunning ''A'']"
  by (simp_all add: fresh_def run_simps migrate_simps max_batch_def)

theorem migrate_twice_witness:
  "fst (migrate (one_recorded False)) = NoError \<and>
   succeed 1 (snd (migrate (one_recorded False))) \<and>
   fst (migrate (snd (migrate (one_recorded False)))) = NoError \<and>
   out (snd (migrate (snd (migrate (one_recorded False))))) = [UpToDate, UpToDate] \<and>
   ran (snd (migrate (snd (migrate (one_recorded False))))) = [] \<and>
   ledger (snd (migrate (snd (migrate (one_recorded False))))) = [entry ''A'' 1] \<and>
   fst (migrate_locked (filterMigrations (migrations fresh) (map scan (ledger fresh)) False) fresh)
     = NoError \<and>
   ran (snd (migrate_locked (filterMigrations (migrations fresh) (map scan (ledger fresh)) False)
          fresh)) = [''B'', ''A''] \<and>
   fst (migrate (snd (migrate_locked
          (filterMigrations (migrations fresh) (map scan (ledger fresh)) False) fresh))) = NoError \<and>
   ran (snd (migrate (snd (migrate_locked
          (filterMigrations (migrations fresh) (map scan (ledger fresh)) False) fresh))))
     = [''B'', ''A''] \<and>
   out (snd (migrate (snd (migrate_locked
          (filterMigrations (migrations fresh) (map scan (ledger fresh)) False) fresh))))
     = [RunningBatch 5 2, FinishedRunning ''B'', FinishedRunning ''A'', UpToDate]"
proof -
  let ?s = "one_recorded False :: nat state"
  let ?ms = "filterMigrations (migrations fresh) (map scan (ledger fresh)) False"
  have e: "fst (migrate ?s) = NoError" "faults (snd (migrate ?s)) = []"
    "out (snd (migrate ?s)) = [UpToDate]" "ran (snd (migrate ?s)) = []"
    "ledger (snd (migrate ?s)) = [entry ''A'' 1]"
    by (simp_all add: one_recorded_def run_simps migrate_simps)
  have 1: "migrate ?s = (NoError, snd (migrate ?s))"
    by (simp add: prod_eq_iff e)
  have 2: "succeed 1 (snd (migrate ?s))" by (simp add: succeed_def e)
  have 3: "migrate_locked ?ms fresh = (NoError, snd (migrate_locked ?ms fresh))"
    by (simp add: prod_eq_iff fresh_applied)
  have 4: "succeed 1 (snd (migrate_locked ?ms fresh))"
    by (simp add: succeed_def fresh_applied)
  from migrate_twice[where s = ?s and ?s1.0 = "snd (migrate ?s)" and t = fresh
      and ?t1.0 = "snd (migrate_locked ?ms fresh)"] 1 2 3 4
  show ?thesis by (simp add: e fresh_applied)
qed

section \<open>The batch number\<close>

text \<open>
  Claim C6. Whatever the part of \<^verbatim>\<open>migrate\<close> under the lock returns, from the query for
  the last batch number to the end of the loop, the ledger it leaves is the ledger it
  found followed by new rows, one for each of the first migrations it was given (for all
  of them when it returns \<^verbatim>\<open>nil\<close>), and every new row carries the same batch number, the
  last batch number of the ledger it found plus one (in 32-bit arithmetic).
  \<^verbatim>\<open>getLastBatchNumber\<close> returns \<open>max_batch\<close> of the ledger, which is 0 for the empty
  ledger and otherwise the greatest batch among the rows, read as signed integers.
\<close>

theorem migrate_batch_number:
  "(migrate_locked ms s = (r, s') \<longrightarrow>
      (\<exists>new k. ledger s' = ledger s @ new \<and> map name new = map Name (take k ms) \<and>
             list_all (\<lambda>row. batch row = max_batch (ledger s) + 1) new \<and>
             (r = NoError \<longrightarrow> map name new = map Name ms))) \<and>
   (next_fault s = None \<longrightarrow> fst (getLastBatchNumber s) = Inr (max_batch (ledger s))) \<and>
   max_batch [] = 0 \<and>
   (rows \<noteq> [] \<longrightarrow> sint (max_batch rows) = Max (sint ` batch ` set rows))"
proof (intro conjI impI)
  assume "migrate_locked ms s = (r, s')"
  from migrate_locked_shape[OF this] obtain k new where
    "ledger s' = ledger s @ new" "map name new = map Name (take k ms)"
    "list_all (\<lambda>row. batch row = max_batch (ledger s) + 1) new"
    "r = NoError \<longrightarrow> k = length ms" by blast
  then show "\<exists>new k. ledger s' = ledger s @ new \<and> map name new = map Name (take k ms) \<and>
             list_all (\<lambda>row. batch row = max_batch (ledger s) + 1) new \<and>
             (r = NoError \<longrightarrow> map name new = map Name ms)"
    by (intro exI[of _ new] exI[of _ k]) auto
qed (simp_all add: getLastBatchNumber_eq max_batch_Max, simp add: max_batch_def)

theorem migrate_batch_number_witness:
  "fst (migrate_locked [registered ''B'' succeeding succeeding,
                        registered ''A'' succeeding succeeding] fresh) = NoError \<and>
   ledger (snd (migrate_locked [registered ''B'' succeeding succeeding,
                                registered ''A'' succeeding succeeding] fresh)) =
     ledger fresh @ [\<lparr>name = ''B'', batch = 5, completed_at = 0\<rparr>,
                     \<lparr>name = ''A'', batch = 5, completed_at = 1\<rparr>] \<and>
   max_batch (ledger fresh) + 1 = 5 \<and> next_fault fresh = None \<and>
   fst (getLastBatchNumber fresh) = Inr 4 \<and>
   [entry ''0'' 4, entry ''1'' (- 5)] \<noteq> [] \<and> sint (max_batch [entry ''0'' 4, entry ''1'' (- 5)]) = 4"
  using migrate_batch_number[of "[registered ''B'' succeeding succeeding,
      registered ''A'' succeeding succeeding]" fresh
      "fst (migrate_locked [registered ''B'' succeeding succeeding,
          registered ''A'' succeeding succeeding] fresh)"
      "snd (migrate_locked [registered ''B'' succeeding succeeding,
          registered ''A'' succeeding succeeding] fresh)" "[entry ''0'' 4, entry ''1'' (- 5)]"]
  by (simp add: fresh_applied) (simp add: fresh_def database_def entry_def max_batch_def next_fault_def)

section \<open>The pending migrations\<close>

text \<open>
  Claim C7. For every list \<open>all\<close> of definitions and every list \<open>completed\<close> of ledger
  entries, the pending migrations \<open>filterMigrations all completed False\<close> are exactly the
  definitions of \<open>all\<close> whose name no entry of \<open>completed\<close> has, in the order they have
  in \<open>all\<close>.
\<close>

theorem filterMigrations_pending:
  "filterMigrations all completed False = filter (\<lambda>a. Name a \<notin> Name ` set completed) all"
  by (simp add: filterMigrations_def Let_def lookup_subsetMap fold_append_if)

section \<open>Rollback of the last batch\<close>

text \<open>
  Claim C8, at the input on which the code does not do what the claim says: a ledger with
  one row of batch 4 and two of batch 5, all three registered, the lock free and every
  statement succeeding. \<^verbatim>\<open>rollback\<close> returns the error of \<^verbatim>\<open>acquireLock\<close>, reverses
  nothing and deletes nothing. The part of \<^verbatim>\<open>rollback\<close> under the lock, had it been
  reached, reverses and deletes the two rows of batch 5 and leaves the row of batch 4.
\<close>

theorem rollback_last_batch_not_reached:
  "fst (rollback two_batches) = Failed ErrWhereClause \<and>
   ledger (snd (rollback two_batches)) = [entry ''123'' 4, entry ''456'' 5, entry ''789'' 5] \<and>
   ran (snd (rollback two_batches)) = [] \<and> out (snd (rollback two_batches)) = [] \<and>
   fst (rollback_locked (map scan (ledger two_batches)) (rollback_under_lock two_batches))
     = NoError \<and>
   ledger (snd (rollback_locked (map scan (ledger two_batches)) (rollback_under_lock two_batches)))
     = [entry ''123'' 4] \<and>
   ran (snd (rollback_locked (map scan (ledger two_batches)) (rollback_under_lock two_batches)))
     = [''789'', ''456'']"
  by (simp add: two_batches_def run_simps rollback_simps)

section \<open>Rollback by name\<close>

text \<open>
  Claim C9, at the input on which the code does not do what the claim says: the registry
  A, B, C, D, the ledger A (batch 1), B and C (batch 2), the list \<^verbatim>\<open>B, A\<close>, the lock free
  and every statement succeeding. The list is read as the names B and A.
  \<^verbatim>\<open>rollbackNamed\<close> returns the error of \<^verbatim>\<open>acquireLock\<close>, reverses nothing and deletes
  nothing. The part of \<^verbatim>\<open>rollbackNamed\<close> under the lock, had it been reached, reverses B
  and then A, deletes their rows and leaves the row of C.
\<close>

theorem rollbackNamed_not_reached:
  "split_commas (remove_spaces ''B, A'') = [''B'', ''A''] \<and>
   fst (rollbackNamed ''B, A'' scenario_C) = Failed ErrWhereClause \<and>
   ledger (snd (rollbackNamed ''B, A'' scenario_C)) = [entry ''A'' 1, entry ''B'' 2, entry ''C'' 2] \<and>
   ran (snd (rollbackNamed ''B, A'' scenario_C)) = [] \<and>
   out (snd (rollbackNamed ''B, A'' scenario_C)) = [] \<and>
   fst (rollbackNamed_locked (map scan (ledger scenario_C)) [''B'', ''A'']
          (rollback_under_lock scenario_C)) = NoError \<and>
   ledger (snd (rollbackNamed_locked (map scan (ledger scenario_C)) [''B'', ''A'']
          (rollback_under_lock scenario_C))) = [entry ''C'' 2] \<and>
   ran (snd (rollbackNamed_locked (map scan (ledger scenario_C)) [''B'', ''A'']
          (rollback_under_lock scenario_C))) = [''B'', ''A'']"
  by (simp add: scenario_C_def run_simps rollback_simps)

section \<open>The deferred release\<close>

text \<open>
  Claim C10. \<^verbatim>\<open>releaseLock\<close> returns an error and writes nothing, and the deferred call
  drops what it returns: the part of a run that starts at \<^verbatim>\<open>defer releaseLock(db)\<close>
  returns what the part under the lock returns. Started with the lock row locked, as a
  run that has acquired the lock starts it, that part of \<^verbatim>\<open>migrate\<close>, of \<^verbatim>\<open>rollback\<close>
  and of \<^verbatim>\<open>rollbackNamed\<close> leaves the row locked, also when it returns \<^verbatim>\<open>nil\<close>.
\<close>

theorem release_error_dropped:
  fixes s :: "'w state"
  shows
  "(\<exists>err. releaseLock s = (Failed err, s)) \<and> defer_releaseLock (r, s) = (r, s) \<and>
   (isLocked s \<longrightarrow>
      fst (defer_releaseLock (migrate_locked ms s)) = fst (migrate_locked ms s) \<and>
      isLocked (snd (defer_releaseLock (migrate_locked ms s))) \<and>
      fst (defer_releaseLock (rollback_locked completed s)) = fst (rollback_locked completed s) \<and>
      isLocked (snd (defer_releaseLock (rollback_locked completed s))) \<and>
      fst (defer_releaseLock (rollbackNamed_locked completed ns s))
        = fst (rollbackNamed_locked completed ns s) \<and>
      isLocked (snd (defer_releaseLock (rollbackNamed_locked completed ns s))))"
proof (intro conjI impI)
  show "\<exists>err. releaseLock s = (Failed err, s)" by (simp add: releaseLock_eq)
  show "defer_releaseLock (r, s) = (r, s)" by (rule defer_releaseLock_eq)
next
  assume l: "isLocked s"
  have "isLocked (snd (migrate_locked ms s)) = isLocked s"
    using migrate_locked_isLocked[of ms s] by (cases "migrate_locked ms s") simp
  with l show "isLocked (snd (defer_releaseLock (migrate_locked ms s)))"
    by (simp add: defer_releaseLock_eq)
  have "isLocked (snd (rollback_locked completed s)) = isLocked s"
    using rollback_locked_isLocked[of completed s] by (cases "rollback_locked completed s") simp
  with l show "isLocked (snd (defer_releaseLock (rollback_locked completed s)))"
    by (simp add: defer_releaseLock_eq)
  have "isLocked (snd (rollbackNamed_locked completed ns s)) = isLocked s"
    using rollbackNamed_locked_isLocked[of completed ns s]
    by (cases "rollbackNamed_locked completed ns s") simp
  with l show "isLocked (snd (defer_releaseLock (rollbackNamed_locked completed ns s)))"
    by (simp add: defer_releaseLock_eq)
qed (simp_all add: defer_releaseLock_eq)

theorem release_error_dropped_witness:
  "isLocked fresh \<and>
   fst (defer_releaseLock (migrate_locked [registered ''B'' succeeding succeeding,
          registered ''A'' succeeding succeeding] fresh)) = NoError \<and>
   isLocked (snd (defer_releaseLock (migrate_locked [registered ''B'' succeeding succeeding,
          registered ''A'' succeeding succeeding] fresh))) \<and>
   isLocked (rollback_under_lock two_batches) \<and>
   fst (defer_releaseLock (rollback_locked (map scan (ledger two_batches))
          (rollback_under_lock two_batches))) = NoError \<and>
   isLocked (snd (defer_releaseLock (rollback_locked (map scan (ledger two_batches))
          (rollback_under_lock two_batches)))) \<and>
   fst (defer_releaseLock (rollbackNamed_locked (map scan (ledger two_batches)) [''456'']
          (rollback_under_lock two_batches))) = NoError \<and>
   isLocked (snd (defer_releaseLock (rollbackNamed_locked (map scan (ledger two_batches)) [''456'']
          (rollback_under_lock two_batches))))"
proof -
  let ?ms = "[registered ''B'' succeeding succeeding, registered ''A'' succeeding succeeding]"
  let ?c = "map scan (ledger two_batches) :: nat migration list"
  let ?t = "rollback_under_lock two_batches"
  have l: "isLocked fresh" "isLocked ?t"
    by (simp_all add: fresh_def database_def rollback_under_lock_def)
  have e: "fst (migrate_locked ?ms fresh) = NoError"
    by (simp add: fresh_applied)
  have e': "fst (rollback_locked ?c ?t) = NoError"
    "fst (rollbackNamed_locked ?c [''456''] ?t) = NoError"
    by (simp_all add: two_batches_def run_simps rollback_simps)
  from release_error_dropped[of fresh NoError ?ms ?c "[]"]
    release_error_dropped[of ?t NoError ?ms ?c "[''456'']"] l e e'
  show ?thesis by simp
qed

end
